theory Spec2Isabelle
  imports Main "HOL-Library.Multiset"
begin

section \<open>Python values the monitor relies on\<close>

text \<open>
  Instants (\<^verbatim>\<open>datetime\<close>) and durations (\<^verbatim>\<open>timedelta\<close>) are counted in
  microseconds, the resolution of both Python types, so that subtraction and comparison
  are exact. Python integers are unbounded: \<open>int\<close>.
\<close>

type_synonym instant = int
type_synonym duration = int

text \<open>The exceptions that the two source files raise or let through.\<close>

datatype error =
    ConnectionError string
  | TypeError
  | UnboundLocalError
  | AttributeError
  | ValueError
  | RpcFailure
  | StoreUnavailable

text \<open>
  \<^verbatim>\<open>str(n)\<close> of an integer: the decimal digits, most significant first, after a
  minus sign for a negative number.
\<close>

definition digit_char :: "nat \<Rightarrow> char" where
  "digit_char d = ''0123456789'' ! d"

function str_nat :: "nat \<Rightarrow> string" where
  "str_nat n = (if n < 10 then [digit_char n] else str_nat (n div 10) @ [digit_char (n mod 10)])"
  by pat_completeness auto
termination
  by (relation "measure id") auto

declare str_nat.simps [simp del]

definition py_str :: "int \<Rightarrow> string" where
  "py_str i = (if i < 0 then CHR ''-'' # str_nat (nat (- i)) else str_nat (nat i))"

text \<open>
  The value of an attribute that holds a number in one place and its decimal string in
  another: a Python \<^verbatim>\<open>int\<close> or a Python \<^verbatim>\<open>str\<close>.
\<close>

datatype py_value = PyInt int | PyStr string

text \<open>
  \<^verbatim>\<open>int(x)\<close>. Of an integer it is the integer. Of a string: an optional sign and
  decimal digits give the number, anything else raises \<^verbatim>\<open>ValueError\<close>. (Python also
  accepts surrounding white space and underscores between digits; the collector never
  writes such strings, and the model raises on them.)
\<close>

definition digit_val :: "char \<Rightarrow> nat option" where
  "digit_val c = map_of [(CHR ''0'', 0), (CHR ''1'', 1), (CHR ''2'', 2), (CHR ''3'', 3),
     (CHR ''4'', 4), (CHR ''5'', 5), (CHR ''6'', 6), (CHR ''7'', 7), (CHR ''8'', 8),
     (CHR ''9'', 9)] c"

fun int_digits :: "string \<Rightarrow> nat \<Rightarrow> nat option" where
  "int_digits [] acc = Some acc"
| "int_digits (c # cs) acc =
     (case digit_val c of None \<Rightarrow> None | Some d \<Rightarrow> int_digits cs (10 * acc + d))"

definition int_of_str :: "string \<Rightarrow> error + int" where
  "int_of_str s =
     (case s of
        [] \<Rightarrow> Inl ValueError
      | c # cs \<Rightarrow>
          if c = CHR ''-'' then
            (case cs of
               [] \<Rightarrow> Inl ValueError
             | _ \<Rightarrow> (case int_digits cs 0 of None \<Rightarrow> Inl ValueError | Some n \<Rightarrow> Inr (- int n)))
          else if c = CHR ''+'' then
            (case cs of
               [] \<Rightarrow> Inl ValueError
             | _ \<Rightarrow> (case int_digits cs 0 of None \<Rightarrow> Inl ValueError | Some n \<Rightarrow> Inr (int n)))
          else (case int_digits s 0 of None \<Rightarrow> Inl ValueError | Some n \<Rightarrow> Inr (int n)))"

definition py_int :: "py_value \<Rightarrow> error + int" where
  "py_int x = (case x of PyInt n \<Rightarrow> Inr n | PyStr s \<Rightarrow> int_of_str s)"

text \<open>\<^verbatim>\<open>sep.join(parts)\<close>.\<close>

fun join :: "string \<Rightarrow> string list \<Rightarrow> string" where
  "join sep [] = []"
| "join sep [x] = x"
| "join sep (x # y # ys) = x @ sep @ join sep (y # ys)"


section \<open>Events, the publisher queue and the event store\<close>

text \<open>
  Modelled from the spec: the event classes of \<^verbatim>\<open>monitor.events\<close> are not among the
  source files. The variants and field names are those of the spec's data model and of
  the constructor calls in \<^verbatim>\<open>rpc_collector.py\<close> (which spells one field
  \<^verbatim>\<open>diffculty\<close>). The spec declares \<open>confirmed\<close>, \<open>space\<close> and \<open>peak_height\<close>
  integers, while the collector passes the result of \<^verbatim>\<open>str\<close> and the summary rule
  reads two of them through \<^verbatim>\<open>int\<close>: these three attributes hold a Python value,
  an integer or a string, as the constructor call gives it. Every event carries its own
  timestamp \<open>ts\<close>.
\<close>

datatype chia_event =
    is_WalletBalanceEvent: WalletBalanceEvent (ts: instant) (confirmed: py_value)
  | is_HarvesterPlotsEvent: HarvesterPlotsEvent (ts: instant) (plot_count: int) (plot_size: int)
  | is_BlockchainStateEvent: BlockchainStateEvent (ts: instant) (space: py_value) (diffculty: int)
      (peak_height: py_value) (synced: bool)
  | is_ConnectionsEvent: ConnectionsEvent (ts: instant) (full_node_count: int) (farmer_count: int)
      (wallet_count: int)
  | is_FarmingInfoEvent: FarmingInfoEvent (ts: instant) (proofs: int)

text \<open>
  Modelled from the spec: \<^verbatim>\<open>Collector.publish_event\<close> belongs to the base class,
  which is not among the source files. The spec's publisher enqueues one event and
  preserves the submission order of a collector: the queue is the list of the events
  published so far, oldest first.
\<close>

definition publish_event :: "chia_event list \<Rightarrow> chia_event \<Rightarrow> chia_event list" where
  "publish_event event_queue event = event_queue @ [event]"

text \<open>
  The event store as the notification rule sees it through \<^verbatim>\<open>db_session.execute\<close>:
  the persisted events in their order of arrival, and for each of the rule's five
  queries whether the store answers it (an unreachable store makes \<^verbatim>\<open>execute\<close>
  raise).
\<close>

datatype query =
    LatestHarvesterPlots
  | LatestBlockchainState
  | LatestWalletBalance
  | LatestConnections
  | SumProofs

record database =
  rows :: "chia_event list"
  answers :: "query \<Rightarrow> bool"

text \<open>
  \<^verbatim>\<open>order_by(E.ts.desc()).limit(1)\<close> followed by \<^verbatim>\<open>scalars().first()\<close>: the row
  with the greatest timestamp, \<^verbatim>\<open>None\<close> for a table without rows. Among rows with
  the same greatest timestamp the database may return any; the model returns the one
  stored first.
\<close>

fun order_by_ts_desc_first :: "chia_event list \<Rightarrow> chia_event option" where
  "order_by_ts_desc_first [] = None"
| "order_by_ts_desc_first (e # es) =
     (case order_by_ts_desc_first es of
        None \<Rightarrow> Some e
      | Some m \<Rightarrow> if ts e < ts m then Some m else Some e)"

definition select_latest :: "(chia_event \<Rightarrow> bool) \<Rightarrow> chia_event list \<Rightarrow> chia_event option" where
  "select_latest kind events = order_by_ts_desc_first (filter kind events)"

text \<open>
  In the words of the spec, for comparison with what the queries return: \<open>m\<close> is a
  stored event of the kind whose own timestamp is the greatest among the stored events of
  that kind.
\<close>

definition latest_of :: "(chia_event \<Rightarrow> bool) \<Rightarrow> chia_event list \<Rightarrow> chia_event \<Rightarrow> bool" where
  "latest_of kind events m \<longleftrightarrow>
     m \<in> set events \<and> kind m \<and> (\<forall>e\<in>set events. kind e \<longrightarrow> ts e \<le> ts m)"

text \<open>
  \<^verbatim>\<open>select(func.sum(FarmingInfoEvent.proofs))\<close>: SQL's \<^verbatim>\<open>SUM\<close> over no rows is
  \<^verbatim>\<open>NULL\<close>, read back as \<^verbatim>\<open>None\<close>.
\<close>

definition select_sum_proofs :: "chia_event list \<Rightarrow> int option" where
  "select_sum_proofs events =
     (case filter is_FarmingInfoEvent events of
        [] \<Rightarrow> None
      | e # es \<Rightarrow> Some (sum_list (map proofs (e # es))))"

definition execute_latest ::
  "database \<Rightarrow> query \<Rightarrow> (chia_event \<Rightarrow> bool) \<Rightarrow> error + chia_event option" where
  "execute_latest db q kind =
     (if answers db q then Inr (select_latest kind (rows db)) else Inl StoreUnavailable)"

definition execute_sum_proofs :: "database \<Rightarrow> error + int option" where
  "execute_sum_proofs db =
     (if answers db SumProofs then Inr (select_sum_proofs (rows db)) else Inl StoreUnavailable)"


section \<open>The summary notification rule (\<^verbatim>\<open>notifications/summary.py\<close>)\<close>

text \<open>\<^verbatim>\<open>summary_interval = timedelta(hours=1)\<close>, in microseconds.\<close>

definition summary_interval :: duration where
  "summary_interval = 3600 * 1000000"

text \<open>
  The Python state the rule touches. \<open>last_summary_ts\<close> is declared in the class
  body, so the class object holds one value, computed when the class statement runs;
  an assignment \<^verbatim>\<open>self.last_summary_ts = ...\<close> writes the instance's own attribute
  dictionary. Instances are named by a number; \<open>instance_last_summary_ts\<close> is the
  entry of each instance's dictionary, \<open>None\<close> while the instance has never assigned
  it. \<open>notified\<close> lists the calls made to \<^verbatim>\<open>apobj.notify\<close> (title and body), oldest
  first.
\<close>

record notifier_state =
  class_last_summary_ts :: instant
  instance_last_summary_ts :: "nat \<Rightarrow> instant option"
  notified :: "(string \<times> string) list"

text \<open>
  The class statement, run at the instant \<open>now\<close>:
  \<^verbatim>\<open>last_summary_ts: datetime = datetime.now() - summary_interval\<close>.
\<close>

definition class_body :: "instant \<Rightarrow> notifier_state" where
  "class_body now =
     \<lparr>class_last_summary_ts = now - summary_interval,
      instance_last_summary_ts = (\<lambda>_. None),
      notified = []\<rparr>"

text \<open>
  Reading \<^verbatim>\<open>self.last_summary_ts\<close>: the instance's own entry when there is one,
  the class attribute otherwise. Writing it: the instance's entry.
\<close>

definition last_summary_ts :: "notifier_state \<Rightarrow> nat \<Rightarrow> instant" where
  "last_summary_ts s self =
     (case instance_last_summary_ts s self of
        Some t \<Rightarrow> t
      | None \<Rightarrow> class_last_summary_ts s)"

definition set_last_summary_ts :: "nat \<Rightarrow> instant \<Rightarrow> notifier_state \<Rightarrow> notifier_state" where
  "set_last_summary_ts self t s =
     s\<lparr>instance_last_summary_ts := (instance_last_summary_ts s)(self := Some t)\<rparr>"

text \<open>
  \<^verbatim>\<open>condition\<close> reads the clock twice: \<open>now1\<close> in the comparison, \<open>now2\<close> for the
  stamp.
\<close>

definition condition :: "nat \<Rightarrow> instant \<Rightarrow> instant \<Rightarrow> notifier_state \<Rightarrow> bool \<times> notifier_state" where
  "condition self now1 now2 s =
     (if now1 - last_summary_ts s self > summary_interval
      then (True, set_last_summary_ts self now2 s)
      else (False, s))"

text \<open>
  The formatting functions come from \<^verbatim>\<open>monitor.format\<close>, which is not among the
  source files; \<open>trigger\<close> takes them as a parameter.
\<close>

record formatters =
  format_plot_count :: "int \<Rightarrow> string"
  format_balance :: "int \<Rightarrow> string"
  format_space :: "int \<Rightarrow> string"
  format_peak_height :: "py_value \<Rightarrow> string"
  format_full_node_count :: "int \<Rightarrow> string"
  format_synced :: "bool \<Rightarrow> string"
  format_proofs :: "int \<Rightarrow> string"

text \<open>The title of the summary; the two emoji are written as their UTF-8 bytes.\<close>

definition summary_title :: string where
  "summary_title =
     ''** '' @ [CHR 0xF0, CHR 0x9F, CHR 0x91, CHR 0xA8, CHR 0xE2, CHR 0x80, CHR 0x8D,
                CHR 0xF0, CHR 0x9F, CHR 0x8C, CHR 0xBE]
     @ '' Farm Status '' @
     [CHR 0xF0, CHR 0x9F, CHR 0x91, CHR 0xA9, CHR 0xE2, CHR 0x80, CHR 0x8D,
      CHR 0xF0, CHR 0x9F, CHR 0x8C, CHR 0xBE] @ '' **''"

text \<open>
  The body of \<open>trigger\<close> after the five queries: the \<^verbatim>\<open>all(v is not None ...)\<close>
  test, the seven formatted lines, the call to \<^verbatim>\<open>notify\<close> and the second stamp;
  \<^verbatim>\<open>int(...)\<close> raises on a field that is not a number.
\<close>

definition summarize ::
  "formatters \<Rightarrow> nat \<Rightarrow> instant \<Rightarrow> chia_event option \<Rightarrow> chia_event option \<Rightarrow> chia_event option \<Rightarrow>
   chia_event option \<Rightarrow> int option \<Rightarrow> notifier_state \<Rightarrow> (error + unit) \<times> notifier_state" where
  "summarize fmt self now last_plots last_state last_balance last_connections proofs_found s =
     (case (last_plots, last_balance, last_state, last_connections, proofs_found) of
        (Some lp, Some lb, Some ls, Some lc, Some pf) \<Rightarrow>
          (case py_int (confirmed lb) of
             Inl e \<Rightarrow> (Inl e, s)
           | Inr balance \<Rightarrow>
               (case py_int (space ls) of
                  Inl e \<Rightarrow> (Inl e, s)
                | Inr sp \<Rightarrow>
                    (let summary = join [CHR 0x0A]
                       [format_plot_count fmt (plot_count lp),
                        format_balance fmt balance,
                        format_space fmt sp,
                        format_peak_height fmt (peak_height ls),
                        format_full_node_count fmt (full_node_count lc),
                        format_synced fmt (synced ls),
                        format_proofs fmt pf]
                     in (Inr (),
                         set_last_summary_ts self now
                           (s\<lparr>notified := notified s @ [(summary_title, summary)]\<rparr>)))))
      | _ \<Rightarrow> (Inr (), s))"

text \<open>
  \<open>trigger\<close>: the five queries in the source's order, each of which may raise, then the
  summary. An exception leaves the state as it was when \<open>trigger\<close> was entered.
\<close>

definition trigger ::
  "formatters \<Rightarrow> nat \<Rightarrow> database \<Rightarrow> instant \<Rightarrow> notifier_state \<Rightarrow> (error + unit) \<times> notifier_state" where
  "trigger fmt self db now s =
     (case execute_latest db LatestHarvesterPlots is_HarvesterPlotsEvent of
        Inl e \<Rightarrow> (Inl e, s)
      | Inr last_plots \<Rightarrow>
     (case execute_latest db LatestBlockchainState is_BlockchainStateEvent of
        Inl e \<Rightarrow> (Inl e, s)
      | Inr last_state \<Rightarrow>
     (case execute_latest db LatestWalletBalance is_WalletBalanceEvent of
        Inl e \<Rightarrow> (Inl e, s)
      | Inr last_balance \<Rightarrow>
     (case execute_latest db LatestConnections is_ConnectionsEvent of
        Inl e \<Rightarrow> (Inl e, s)
      | Inr last_connections \<Rightarrow>
     (case execute_sum_proofs db of
        Inl e \<Rightarrow> (Inl e, s)
      | Inr proofs_found \<Rightarrow>
          summarize fmt self now last_plots last_state last_balance last_connections
            proofs_found s)))))"

text \<open>
  Modelled from the spec: the notification driver is not among the source files. On each
  tick it evaluates \<^verbatim>\<open>condition()\<close> and calls \<^verbatim>\<open>trigger()\<close> only when the condition
  returned true; a failure of a rule is contained in its tick. A tick supplies the three
  clock readings of the two methods and the store as it is at that time.
\<close>

record tick =
  now_check :: instant
  now_stamp :: instant
  now_fired :: instant
  store :: database

definition run_tick ::
  "formatters \<Rightarrow> nat \<Rightarrow> tick \<Rightarrow> notifier_state \<Rightarrow> (error + unit) \<times> notifier_state" where
  "run_tick fmt self k s =
     (case condition self (now_check k) (now_stamp k) s of
        (True, s1) \<Rightarrow> trigger fmt self (store k) (now_fired k) s1
      | (False, s1) \<Rightarrow> (Inr (), s1))"

text \<open>
  The ticks of a run during which \<^verbatim>\<open>notify\<close> was called, in order: the driver goes
  on to the next tick whatever the outcome of the last.
\<close>

fun notifying_ticks :: "formatters \<Rightarrow> nat \<Rightarrow> tick list \<Rightarrow> notifier_state \<Rightarrow> tick list" where
  "notifying_ticks fmt self [] s = []"
| "notifying_ticks fmt self (k # ks) s =
     (let s1 = snd (run_tick fmt self k s)
      in (if length (notified s) < length (notified s1) then [k] else [])
         @ notifying_ticks fmt self ks s1)"

text \<open>
  A clock that never runs backwards over a run: within a tick the three readings follow
  each other, and a tick starts no earlier than the one before it ended.
\<close>

fun chronological :: "tick list \<Rightarrow> bool" where
  "chronological [] = True"
| "chronological [k] = (now_check k \<le> now_stamp k \<and> now_stamp k \<le> now_fired k)"
| "chronological (k # k' # ks) =
     (now_check k \<le> now_stamp k \<and> now_stamp k \<le> now_fired k \<and> now_fired k \<le> now_check k'
      \<and> chronological (k' # ks))"


section \<open>The RPC collector (\<^verbatim>\<open>collectors/rpc_collector.py\<close>)\<close>

text \<open>
  The remote services are outside the repository; what they answer during one poll cycle
  is a parameter. \<open>None\<close> stands for a call that raises (the service is unreachable, it
  times out, its answer is malformed), \<open>False\<close> for a client that could not be built.
  A peer's \<^verbatim>\<open>type\<close> is a member of chia's \<^verbatim>\<open>NodeType\<close> enumeration.
\<close>

datatype node_type = FULL_NODE | HARVESTER | FARMER | TIMELORD | INTRODUCER | WALLET

record connection =
  peer_type :: node_type
  peer_host :: string

record plot =
  filename :: string
  file_size :: int

record plots_response =
  success :: bool
  plots :: "plot list"

record blockchain_state =
  state_space :: int
  state_difficulty :: int
  state_peak_height :: "int option"
  state_sync_synced :: bool

record rpc_world =
  wallet_client_get_wallets :: "nat list option"
  wallet_client_get_wallet_balance :: "nat \<Rightarrow> int option"
  farmer_client_create :: bool
  farmer_client_get_connections :: "connection list option"
  harvester_client_create :: "string \<Rightarrow> bool"
  harvester_client_get_plots :: "string \<Rightarrow> plots_response option"
  full_node_client_get_blockchain_state :: "blockchain_state option"
  full_node_client_get_connections :: "connection list option"

text \<open>
  \<open>get_wallet_balance\<close>. The loop over the wallets asks for each wallet's balance, by
  its id, and keeps the \<^verbatim>\<open>confirmed_wallet_balance\<close> of each answer; any exception
  inside the \<^verbatim>\<open>try\<close> becomes a \<^verbatim>\<open>ConnectionError\<close>.
\<close>

fun confirmed_balances :: "rpc_world \<Rightarrow> nat list \<Rightarrow> int list option" where
  "confirmed_balances w [] = Some []"
| "confirmed_balances w (wallet # wallets) =
     (case wallet_client_get_wallet_balance w wallet of
        None \<Rightarrow> None
      | Some balance \<Rightarrow>
          (case confirmed_balances w wallets of
             None \<Rightarrow> None
           | Some balances \<Rightarrow> Some (balance # balances)))"

definition get_wallet_balance ::
  "rpc_world \<Rightarrow> instant \<Rightarrow> chia_event list \<Rightarrow> (error + unit) \<times> chia_event list" where
  "get_wallet_balance w now event_queue =
     (case (case wallet_client_get_wallets w of
              None \<Rightarrow> None
            | Some wallets \<Rightarrow> confirmed_balances w wallets) of
        None \<Rightarrow>
          (Inl (ConnectionError ''Failed to get wallet balance via RPC. Is your wallet running?''),
           event_queue)
      | Some balances \<Rightarrow>
          (Inr (), publish_event event_queue
             (WalletBalanceEvent now (PyStr (py_str (sum_list balances))))))"

text \<open>
  \<open>get_plots\<close> for one harvester host. An exception of the RPC call is caught and
  printed, and the function returns \<^verbatim>\<open>None\<close>. When the client could not be built
  the handler runs as well, but the variable \<^verbatim>\<open>harvester_client\<close> was never bound
  and \<^verbatim>\<open>harvester_client.close()\<close> after the handler raises.
\<close>

definition get_plots :: "rpc_world \<Rightarrow> string \<Rightarrow> error + plots_response option" where
  "get_plots w harvester_rpc_hostname =
     (if harvester_client_create w harvester_rpc_hostname
      then Inr (harvester_client_get_plots w harvester_rpc_hostname)
      else Inl UnboundLocalError)"

text \<open>
  \<open>get_all_plots\<close>: the loop over the hosts, with the variable \<^verbatim>\<open>all_plots\<close> as
  accumulator. The first successful answer becomes \<^verbatim>\<open>all_plots\<close>; the plots of
  every later one are appended to its list.
\<close>

fun get_all_plots_loop ::
  "rpc_world \<Rightarrow> plots_response option \<Rightarrow> string list \<Rightarrow> error + plots_response option" where
  "get_all_plots_loop w all_plots [] = Inr all_plots"
| "get_all_plots_loop w all_plots (host # hosts) =
     (case get_plots w host of
        Inl e \<Rightarrow> Inl e
      | Inr None \<Rightarrow> get_all_plots_loop w all_plots hosts
      | Inr (Some p) \<Rightarrow>
          if success p then
            (case all_plots of
               None \<Rightarrow> get_all_plots_loop w (Some p) hosts
             | Some a \<Rightarrow> get_all_plots_loop w (Some (a\<lparr>plots := plots a @ plots p\<rparr>)) hosts)
          else get_all_plots_loop w all_plots hosts)"

definition get_all_plots :: "rpc_world \<Rightarrow> string list \<Rightarrow> error + plots_response option" where
  "get_all_plots w harvester_hosts = get_all_plots_loop w None harvester_hosts"

text \<open>
  \<open>get_harvesters\<close>: the hosts of the farmer's peers of type \<^verbatim>\<open>HARVESTER\<close>, the
  empty list when the farmer does not answer; the unbound \<^verbatim>\<open>farmer_client\<close> raises
  when the client could not be built.
\<close>

definition get_harvesters :: "rpc_world \<Rightarrow> error + string list" where
  "get_harvesters w =
     (if farmer_client_create w then
        Inr (case farmer_client_get_connections w of
               None \<Rightarrow> []
             | Some connections \<Rightarrow>
                 map peer_host (filter (\<lambda>c. peer_type c = HARVESTER) connections))
      else Inl UnboundLocalError)"

text \<open>
  \<open>get_harvester_plots\<close>. The \<^verbatim>\<open>try\<close> covers the two calls only; the event is
  built after it, and \<^verbatim>\<open>plots["plots"]\<close> on \<^verbatim>\<open>None\<close> raises \<^verbatim>\<open>TypeError\<close>.
\<close>

definition get_harvester_plots ::
  "rpc_world \<Rightarrow> instant \<Rightarrow> chia_event list \<Rightarrow> (error + unit) \<times> chia_event list" where
  "get_harvester_plots w now event_queue =
     (case (case get_harvesters w of
              Inl e \<Rightarrow> Inl e
            | Inr harvesters \<Rightarrow> get_all_plots w harvesters) of
        Inl _ \<Rightarrow>
          (Inl (ConnectionError
                  ''Failed to get harvester plots via RPC. Is your harvester running?''),
           event_queue)
      | Inr None \<Rightarrow> (Inl TypeError, event_queue)
      | Inr (Some p) \<Rightarrow>
          (Inr (),
           publish_event event_queue
             (HarvesterPlotsEvent now (int (length (plots p))) (sum_list (map file_size (plots p))))))"

text \<open>
  \<open>get_blockchain_state\<close>. The event is built outside the \<^verbatim>\<open>try\<close>:
  \<^verbatim>\<open>state["peak"].height\<close> raises \<^verbatim>\<open>AttributeError\<close> while the node has no peak.
\<close>

definition get_blockchain_state ::
  "rpc_world \<Rightarrow> instant \<Rightarrow> chia_event list \<Rightarrow> (error + unit) \<times> chia_event list" where
  "get_blockchain_state w now event_queue =
     (case full_node_client_get_blockchain_state w of
        None \<Rightarrow>
          (Inl (ConnectionError
                  ''Failed to get blockchain state via RPC. Is your full node running?''),
           event_queue)
      | Some state \<Rightarrow>
          (case state_peak_height state of
             None \<Rightarrow> (Inl AttributeError, event_queue)
           | Some height \<Rightarrow>
               (Inr (),
                publish_event event_queue
                  (BlockchainStateEvent now (PyStr (py_str (state_space state)))
                     (state_difficulty state) (PyStr (py_str height)) (state_sync_synced state)))))"

text \<open>\<open>get_connections\<close> has no \<^verbatim>\<open>try\<close>: the exception of the RPC call leaves as it is.\<close>

definition get_connections ::
  "rpc_world \<Rightarrow> instant \<Rightarrow> chia_event list \<Rightarrow> (error + unit) \<times> chia_event list" where
  "get_connections w now event_queue =
     (case full_node_client_get_connections w of
        None \<Rightarrow> (Inl RpcFailure, event_queue)
      | Some peers \<Rightarrow>
          (Inr (),
           publish_event event_queue
             (ConnectionsEvent now
                (int (length (filter (\<lambda>peer. peer_type peer = FULL_NODE) peers)))
                (int (length (filter (\<lambda>peer. peer_type peer = FARMER) peers)))
                (int (length (filter (\<lambda>peer. peer_type peer = WALLET) peers))))))"

text \<open>
  A coroutine of the collector, as far as the other coroutines and the caller can see it:
  it ends by raising or by returning, and the only shared state is the event queue. A
  fetch touches the queue once, when it publishes at its end, so it acts on the queue at
  the instant at which it ends.
\<close>

type_synonym coroutine = "chia_event list \<Rightarrow> (error + unit) \<times> chia_event list"

text \<open>
  \<^verbatim>\<open>asyncio.gather(a1, ..., an)\<close> with the default \<^verbatim>\<open>return_exceptions=False\<close>,
  seen from the caller that awaits it. The awaitables run concurrently and end in the
  order that the remote services decide, so each argument comes with the instant at which
  it ends; awaitables that end at the same instant are resumed in the order of the
  arguments. The caller is resumed when all of them have returned, or as soon as the first
  of them raises: that exception is raised in the caller at once, and the awaitables that
  have not ended yet are neither cancelled nor awaited, they stay suspended on the event
  loop. What becomes of them is up to whatever runs the event loop after the caller; the
  model stops at the moment the caller is resumed.
\<close>

fun until_first_exception :: "coroutine list \<Rightarrow> coroutine" where
  "until_first_exception [] event_queue = (Inr (), event_queue)"
| "until_first_exception (c # cs) event_queue =
     (case c event_queue of
        (Inl e, q1) \<Rightarrow> (Inl e, q1)
      | (Inr _, q1) \<Rightarrow> until_first_exception cs q1)"

definition gather :: "(instant \<times> coroutine) list \<Rightarrow> coroutine" where
  "gather aws = until_first_exception (map snd (sort_key fst aws))"

text \<open>
  One iteration of the loop of \<open>task\<close>: the answers of the remote services during the
  cycle and, for each of the four fetches, the instant at which it ends. A fetch that
  succeeds reads the clock for the timestamp of its event right before it publishes, so
  that reading is the instant at which it ends.
\<close>

record cycle =
  world :: rpc_world
  now_wallet_balance :: instant
  now_harvester_plots :: instant
  now_blockchain_state :: instant
  now_connections :: instant

definition poll :: "cycle \<Rightarrow> coroutine" where
  "poll c =
     gather [(now_wallet_balance c, get_wallet_balance (world c) (now_wallet_balance c)),
             (now_harvester_plots c, get_harvester_plots (world c) (now_harvester_plots c)),
             (now_blockchain_state c, get_blockchain_state (world c) (now_blockchain_state c)),
             (now_connections c, get_connections (world c) (now_connections c))]"

text \<open>
  \<open>task\<close>: \<^verbatim>\<open>while True\<close> around the \<^verbatim>\<open>gather\<close> and a sleep of ten seconds, with
  no handler, so an exception of the \<^verbatim>\<open>gather\<close> ends the loop. The loop is run over
  the list of the cycles to come: \<open>Inl e\<close> when the exception \<open>e\<close> ended it, with the
  queue as it is at that moment, \<open>Inr ()\<close> when it went through all of them and is still
  running.
\<close>

fun task :: "cycle list \<Rightarrow> coroutine" where
  "task [] event_queue = (Inr (), event_queue)"
| "task (c # cs) event_queue =
     (case poll c event_queue of
        (Inl e, q1) \<Rightarrow> (Inl e, q1)
      | (Inr _, q1) \<Rightarrow> task cs q1)"


text \<open>
  The two notions in which the aggregation is described: a harvester succeeds when its
  \<^verbatim>\<open>get_plots\<close> call returns an answer whose \<^verbatim>\<open>success\<close> flag is set (the test of
  \<open>get_all_plots\<close>), and its plots are those of its answer.
\<close>

definition succeeds :: "rpc_world \<Rightarrow> string \<Rightarrow> bool" where
  "succeeds w host = (case harvester_client_get_plots w host of None \<Rightarrow> False | Some p \<Rightarrow> success p)"

definition plots_of :: "rpc_world \<Rightarrow> string \<Rightarrow> plot list" where
  "plots_of w host = (case harvester_client_get_plots w host of None \<Rightarrow> [] | Some p \<Rightarrow> plots p)"

section \<open>Sample inputs\<close>

text \<open>
  Concrete inputs on which the theorems below are evaluated: formatting functions, the
  answers of the remote services during a cycle (two harvesters, of which \<open>h2\<close> does
  not answer), a cycle whose four fetches end at one instant, so that they are resumed in
  the order of the arguments, and a store in which the newer of two wallet events arrived
  first.
\<close>

definition sample_formatters :: formatters where
  "sample_formatters =
     \<lparr>format_plot_count = py_str,
      format_balance = py_str,
      format_space = py_str,
      format_peak_height = (\<lambda>h. case h of PyInt n \<Rightarrow> py_str n | PyStr s \<Rightarrow> s),
      format_full_node_count = py_str,
      format_synced = (\<lambda>b. if b then ''True'' else ''False''),
      format_proofs = py_str\<rparr>"

definition sample_world :: rpc_world where
  "sample_world =
     \<lparr>wallet_client_get_wallets = Some [1],
      wallet_client_get_wallet_balance = (\<lambda>_. Some 100),
      farmer_client_create = True,
      farmer_client_get_connections =
        Some [\<lparr>peer_type = HARVESTER, peer_host = ''h1''\<rparr>,
              \<lparr>peer_type = FULL_NODE, peer_host = ''n1''\<rparr>,
              \<lparr>peer_type = HARVESTER, peer_host = ''h2''\<rparr>],
      harvester_client_create = (\<lambda>_. True),
      harvester_client_get_plots =
        (\<lambda>host. if host = ''h1''
                then Some \<lparr>success = True,
                           plots = [\<lparr>filename = ''a'', file_size = 7\<rparr>,
                                    \<lparr>filename = ''b'', file_size = 5\<rparr>]\<rparr>
                else None),
      full_node_client_get_blockchain_state =
        Some \<lparr>state_space = 1000, state_difficulty = 3, state_peak_height = Some 42,
              state_sync_synced = True\<rparr>,
      full_node_client_get_connections =
        Some [\<lparr>peer_type = FULL_NODE, peer_host = ''n1''\<rparr>,
              \<lparr>peer_type = WALLET, peer_host = ''w1''\<rparr>]\<rparr>"

definition sample_cycle :: "rpc_world \<Rightarrow> instant \<Rightarrow> cycle" where
  "sample_cycle w t =
     \<lparr>world = w, now_wallet_balance = t, now_harvester_plots = t, now_blockchain_state = t,
      now_connections = t\<rparr>"

definition sample_tick :: "instant \<Rightarrow> database \<Rightarrow> tick" where
  "sample_tick t db = \<lparr>now_check = t, now_stamp = t, now_fired = t, store = db\<rparr>"

definition sample_database :: database where
  "sample_database =
     \<lparr>rows = [WalletBalanceEvent 20 (PyStr ''150''), HarvesterPlotsEvent 10 2 12,
              BlockchainStateEvent 10 (PyStr ''1000'') 3 (PyStr ''42'') True,
              ConnectionsEvent 10 1 0 1, FarmingInfoEvent 11 1,
              WalletBalanceEvent 10 (PyStr ''100'')],
      answers = (\<lambda>_. True)\<rparr>"


section \<open>Facts about the notification rule and the store\<close>

lemma last_summary_ts_set_same [simp]:
  "last_summary_ts (set_last_summary_ts self t s) self = t"
  by (simp add: last_summary_ts_def set_last_summary_ts_def)

lemma last_summary_ts_set_other [simp]:
  "a \<noteq> b \<Longrightarrow> last_summary_ts (set_last_summary_ts a t s) b = last_summary_ts s b"
  by (simp add: last_summary_ts_def set_last_summary_ts_def split: option.splits)

lemma last_summary_ts_notified [simp]:
  "last_summary_ts (s\<lparr>notified := n\<rparr>) self = last_summary_ts s self"
  by (simp add: last_summary_ts_def split: option.splits)

lemma notified_set_last_summary_ts [simp]:
  "notified (set_last_summary_ts self t s) = notified s"
  by (simp add: set_last_summary_ts_def)

lemma summarize_cases:
  "summarize fmt self now lp ls lb lc pf s = (r, s') \<Longrightarrow>
     s' = s \<or>
     (r = Inr () \<and> lp \<noteq> None \<and> ls \<noteq> None \<and> lb \<noteq> None \<and> lc \<noteq> None \<and> pf \<noteq> None \<and>
      (\<exists>body. s' = set_last_summary_ts self now (s\<lparr>notified := notified s @ [(summary_title, body)]\<rparr>)))"
  by (auto simp: summarize_def Let_def split: option.splits sum.splits)

lemma trigger_cases:
  "trigger fmt self db now s = (r, s') \<Longrightarrow>
     s' = s \<or>
     (r = Inr () \<and>
      select_latest is_HarvesterPlotsEvent (rows db) \<noteq> None \<and>
      select_latest is_BlockchainStateEvent (rows db) \<noteq> None \<and>
      select_latest is_WalletBalanceEvent (rows db) \<noteq> None \<and>
      select_latest is_ConnectionsEvent (rows db) \<noteq> None \<and>
      select_sum_proofs (rows db) \<noteq> None \<and>
      (\<forall>q. answers db q) \<and>
      (\<exists>body. s' = set_last_summary_ts self now (s\<lparr>notified := notified s @ [(summary_title, body)]\<rparr>)))"
proof -
  assume t: "trigger fmt self db now s = (r, s')"
  have all: "(\<forall>q. answers db q) \<longleftrightarrow>
      answers db LatestHarvesterPlots \<and> answers db LatestBlockchainState \<and>
      answers db LatestWalletBalance \<and> answers db LatestConnections \<and> answers db SumProofs"
    by (metis query.exhaust)
  show ?thesis
  proof (cases "\<forall>q. answers db q")
    case True
    with t have "summarize fmt self now (select_latest is_HarvesterPlotsEvent (rows db))
        (select_latest is_BlockchainStateEvent (rows db))
        (select_latest is_WalletBalanceEvent (rows db))
        (select_latest is_ConnectionsEvent (rows db))
        (select_sum_proofs (rows db)) s = (r, s')"
      by (simp add: trigger_def execute_latest_def execute_sum_proofs_def)
    from summarize_cases [OF this] True show ?thesis by blast
  next
    case False
    with all t have "s' = s"
      by (auto simp: trigger_def execute_latest_def execute_sum_proofs_def split: if_splits)
    then show ?thesis by simp
  qed
qed

lemma trigger_store_failure:
  assumes "\<not> answers db q"
  shows "trigger fmt self db now s = (Inl StoreUnavailable, s)"
proof -
  have "\<not> answers db LatestHarvesterPlots \<or> \<not> answers db LatestBlockchainState \<or>
      \<not> answers db LatestWalletBalance \<or> \<not> answers db LatestConnections \<or> \<not> answers db SumProofs"
    using assms by (cases q) auto
  then show ?thesis
    by (auto simp: trigger_def execute_latest_def execute_sum_proofs_def)
qed


lemma summary_interval_pos: "0 < summary_interval"
  by (simp add: summary_interval_def)

lemma run_tick_cases:
  assumes "now_check k \<le> now_stamp k" "now_stamp k \<le> now_fired k"
  shows "(snd (run_tick fmt self k s) = s \<and> \<not> summary_interval < now_check k - last_summary_ts s self) \<or>
     (summary_interval < now_check k - last_summary_ts s self \<and>
      (snd (run_tick fmt self k s) = set_last_summary_ts self (now_stamp k) s \<or>
       (\<exists>body. snd (run_tick fmt self k s) =
          set_last_summary_ts self (now_fired k)
            ((set_last_summary_ts self (now_stamp k) s)
               \<lparr>notified := notified s @ [(summary_title, body)]\<rparr>))))"
proof (cases "summary_interval < now_check k - last_summary_ts s self")
  case False
  then show ?thesis by (simp add: run_tick_def condition_def)
next
  case True
  let ?s1 = "set_last_summary_ts self (now_stamp k) s"
  obtain r s' where t: "trigger fmt self (store k) (now_fired k) ?s1 = (r, s')"
    by (cases "trigger fmt self (store k) (now_fired k) ?s1")
  with True have "snd (run_tick fmt self k s) = s'"
    by (simp add: run_tick_def condition_def)
  with trigger_cases [OF t] True show ?thesis by auto
qed

lemma run_tick_monotone:
  assumes "now_check k \<le> now_stamp k" "now_stamp k \<le> now_fired k"
  shows "last_summary_ts s self \<le> last_summary_ts (snd (run_tick fmt self k s)) self"
  using run_tick_cases [OF assms, of fmt self s] summary_interval_pos assms
  by auto

lemma run_tick_notifying:
  assumes "now_check k \<le> now_stamp k" "now_stamp k \<le> now_fired k"
    and "length (notified s) < length (notified (snd (run_tick fmt self k s)))"
  shows "last_summary_ts (snd (run_tick fmt self k s)) self = now_fired k \<and>
     summary_interval < now_check k - last_summary_ts s self"
  using run_tick_cases [OF assms(1,2), of fmt self s] assms(3)
  by auto

lemma chronological_Cons:
  "chronological (k # ks) \<Longrightarrow>
     now_check k \<le> now_stamp k \<and> now_stamp k \<le> now_fired k \<and> chronological ks"
  by (cases ks) auto

lemma notifying_ticks_after:
  "chronological ks \<Longrightarrow> b \<in> set (notifying_ticks fmt self ks s) \<Longrightarrow>
     summary_interval < now_check b - last_summary_ts s self"
proof (induction ks arbitrary: s)
  case Nil
  then show ?case by simp
next
  case (Cons k ks)
  from chronological_Cons [OF Cons.prems(1)]
  have k: "now_check k \<le> now_stamp k" "now_stamp k \<le> now_fired k" and ks: "chronological ks"
    by auto
  let ?s1 = "snd (run_tick fmt self k s)"
  from Cons.prems(2) consider
    (head) "b = k" "length (notified s) < length (notified ?s1)"
    | (tail) "b \<in> set (notifying_ticks fmt self ks ?s1)"
    by (auto simp: Let_def split: if_splits)
  then show ?case
  proof cases
    case head
    with run_tick_notifying [OF k, of s fmt self] show ?thesis by simp
  next
    case tail
    from Cons.IH [OF ks tail] run_tick_monotone [OF k, of s self fmt]
    show ?thesis by linarith
  qed
qed

lemma notifying_ticks_spaced:
  "chronological ks \<Longrightarrow>
     sorted_wrt (\<lambda>a b. summary_interval < now_check b - now_fired a)
       (notifying_ticks fmt self ks s)"
proof (induction ks arbitrary: s)
  case Nil
  then show ?case by simp
next
  case (Cons k ks)
  from chronological_Cons [OF Cons.prems]
  have k: "now_check k \<le> now_stamp k" "now_stamp k \<le> now_fired k" and ks: "chronological ks"
    by auto
  let ?s1 = "snd (run_tick fmt self k s)"
  show ?case
  proof (cases "length (notified s) < length (notified ?s1)")
    case False
    with Cons.IH [OF ks, of ?s1] show ?thesis by (simp add: Let_def)
  next
    case True
    from run_tick_notifying [OF k True] have "last_summary_ts ?s1 self = now_fired k" by simp
    with notifying_ticks_after [OF ks, of _ fmt self ?s1]
    have "\<forall>b\<in>set (notifying_ticks fmt self ks ?s1). summary_interval < now_check b - now_fired k"
      by auto
    with True Cons.IH [OF ks, of ?s1] show ?thesis by (simp add: Let_def)
  qed
qed


lemma order_by_None: "order_by_ts_desc_first es = None \<longleftrightarrow> es = []"
  by (cases es) (auto split: option.splits)

lemma order_by_Some:
  "order_by_ts_desc_first es = Some m \<Longrightarrow> m \<in> set es \<and> (\<forall>e\<in>set es. ts e \<le> ts m)"
proof (induction es arbitrary: m)
  case Nil
  then show ?case by simp
next
  case (Cons e es)
  show ?case
  proof (cases "order_by_ts_desc_first es")
    case None
    then have "es = []" by (simp add: order_by_None)
    with Cons.prems show ?thesis by simp
  next
    case (Some m')
    with Cons.IH have "m' \<in> set es" "\<forall>x\<in>set es. ts x \<le> ts m'" by auto
    with Cons.prems Some show ?thesis
      by (auto split: if_splits)
  qed
qed

lemma order_by_same_rows:
  assumes "set xs = set ys"
  shows "map_option ts (order_by_ts_desc_first xs) = map_option ts (order_by_ts_desc_first ys)"
    and "inj_on ts (set xs) \<Longrightarrow> order_by_ts_desc_first xs = order_by_ts_desc_first ys"
proof -
  show "map_option ts (order_by_ts_desc_first xs) = map_option ts (order_by_ts_desc_first ys)"
  proof (cases "order_by_ts_desc_first xs")
    case None
    then have "xs = []" by (simp add: order_by_None)
    with assms have "ys = []" by simp
    with None show ?thesis by simp
  next
    case (Some m)
    then have "xs \<noteq> []" by auto
    with assms have "ys \<noteq> []" by auto
    then obtain m' where m': "order_by_ts_desc_first ys = Some m'"
      using order_by_None [of ys] by (cases "order_by_ts_desc_first ys") auto
    from order_by_Some [OF Some] order_by_Some [OF m'] assms
    have "ts m' \<le> ts m" "ts m \<le> ts m'" by auto
    with Some m' show ?thesis by simp
  qed
  then have same_ts: "map_option ts (order_by_ts_desc_first xs) = map_option ts (order_by_ts_desc_first ys)" .
  assume inj: "inj_on ts (set xs)"
  show "order_by_ts_desc_first xs = order_by_ts_desc_first ys"
  proof (cases "order_by_ts_desc_first xs")
    case None
    with same_ts show ?thesis by simp
  next
    case (Some m)
    with same_ts obtain m' where m': "order_by_ts_desc_first ys = Some m'" "ts m' = ts m"
      by (cases "order_by_ts_desc_first ys") auto
    from order_by_Some [OF Some] order_by_Some [OF m'(1)] assms
    have "m \<in> set xs" "m' \<in> set xs" by auto
    with inj m'(2) have "m' = m" by (auto dest: inj_onD)
    with Some m' show ?thesis by simp
  qed
qed

lemma filter_same_rows: "mset xs = mset ys \<Longrightarrow> set (filter kind xs) = set (filter kind ys)"
  by (metis set_filter set_mset_mset)


lemma sample_trigger:
  "trigger sample_formatters self sample_database now s =
     (Inr (),
      set_last_summary_ts self now
        (s\<lparr>notified := notified s @
           [(summary_title,
             ''2'' @ [CHR 0x0A] @ ''150'' @ [CHR 0x0A] @ ''1000'' @ [CHR 0x0A] @ ''42'' @ [CHR 0x0A]
             @ ''1'' @ [CHR 0x0A] @ ''True'' @ [CHR 0x0A] @ ''1'')]\<rparr>))"
  by (simp add: trigger_def execute_latest_def execute_sum_proofs_def sample_database_def
     select_latest_def select_sum_proofs_def summarize_def py_int_def int_of_str_def
     digit_val_def sample_formatters_def py_str_def str_nat.simps digit_char_def)

lemma select_latest_None:
  "select_latest kind events = None \<longleftrightarrow> \<not> (\<exists>e\<in>set events. kind e)"
  by (auto simp: select_latest_def order_by_None filter_empty_conv)

lemma select_latest_Some:
  "select_latest kind events = Some m \<Longrightarrow> latest_of kind events m"
  using order_by_Some [of "filter kind events" m]
  by (auto simp: select_latest_def latest_of_def)

lemma select_latest_exists:
  "\<exists>e\<in>set events. kind e \<Longrightarrow> \<exists>m. select_latest kind events = Some m \<and> latest_of kind events m"
  using select_latest_None [of kind events] select_latest_Some [of kind events]
  by (cases "select_latest kind events") auto

lemma select_sum_proofs_Some:
  "\<exists>e\<in>set events. is_FarmingInfoEvent e \<Longrightarrow>
     select_sum_proofs events = Some (sum_list (map proofs (filter is_FarmingInfoEvent events)))"
proof -
  assume "\<exists>e\<in>set events. is_FarmingInfoEvent e"
  then have "filter is_FarmingInfoEvent events \<noteq> []" by (auto simp: filter_empty_conv)
  then show ?thesis
    by (cases "filter is_FarmingInfoEvent events") (auto simp: select_sum_proofs_def)
qed

lemma select_latest_same_rows:
  assumes "mset events' = mset events"
  shows "map_option ts (select_latest kind events') = map_option ts (select_latest kind events)"
    and "inj_on ts {e \<in> set events. kind e} \<Longrightarrow>
      select_latest kind events' = select_latest kind events"
proof -
  have f: "set (filter kind events') = set (filter kind events)"
    using assms by (rule filter_same_rows)
  from order_by_same_rows(1) [OF f]
  show "map_option ts (select_latest kind events') = map_option ts (select_latest kind events)"
    by (simp add: select_latest_def)
  assume "inj_on ts {e \<in> set events. kind e}"
  with f have "inj_on ts (set (filter kind events'))" by simp
  with f show "select_latest kind events' = select_latest kind events"
    unfolding select_latest_def by (rule order_by_same_rows(2))
qed


section \<open>The claims about the store and the notification rule\<close>

text \<open>
  Claim C7. Each of the rule's latest-event lookups is a query of \<open>trigger\<close> to the
  store. On a store that answers, such a query returns nothing exactly when no event of
  its kind is stored, and otherwise a stored event of that kind whose timestamp is the
  greatest among the stored events of the kind. When every kind has data, the four events
  that \<open>trigger\<close> gets from its four lookups are such latest events, and the summary it
  sends is made of their fields. The same events stored in another order of arrival give
  an answer with the same timestamp, and the same event when the timestamps of the kind
  are distinct. In the scenario of three wallet cycles (a balance of 100 at instant 10,
  of 150 at instant 20, then a cycle at instant 30 in which the wallet does not answer)
  the wallet-balance lookup on the events published returns the event of the second
  cycle, whose \<open>confirmed\<close> field reads 150.
\<close>

theorem latest_by_timestamp:
  assumes "\<forall>q. answers db q"
  shows "(\<exists>r. execute_latest db q kind = Inr r
            \<and> (r = None \<longleftrightarrow> \<not> (\<exists>e\<in>set (rows db). kind e))
            \<and> (\<forall>m. r = Some m \<longrightarrow> latest_of kind (rows db) m))
     \<and> ((\<exists>e\<in>set (rows db). is_HarvesterPlotsEvent e)
          \<and> (\<exists>e\<in>set (rows db). is_BlockchainStateEvent e)
          \<and> (\<exists>e\<in>set (rows db). is_WalletBalanceEvent e)
          \<and> (\<exists>e\<in>set (rows db). is_ConnectionsEvent e)
          \<and> (\<exists>e\<in>set (rows db). is_FarmingInfoEvent e) \<longrightarrow>
         (\<exists>lp ls lb lc.
            execute_latest db LatestHarvesterPlots is_HarvesterPlotsEvent = Inr (Some lp)
            \<and> latest_of is_HarvesterPlotsEvent (rows db) lp
            \<and> execute_latest db LatestBlockchainState is_BlockchainStateEvent = Inr (Some ls)
            \<and> latest_of is_BlockchainStateEvent (rows db) ls
            \<and> execute_latest db LatestWalletBalance is_WalletBalanceEvent = Inr (Some lb)
            \<and> latest_of is_WalletBalanceEvent (rows db) lb
            \<and> execute_latest db LatestConnections is_ConnectionsEvent = Inr (Some lc)
            \<and> latest_of is_ConnectionsEvent (rows db) lc
            \<and> trigger fmt self db now s =
                (case py_int (confirmed lb) of
                   Inl e \<Rightarrow> (Inl e, s)
                 | Inr balance \<Rightarrow>
                     (case py_int (space ls) of
                        Inl e \<Rightarrow> (Inl e, s)
                      | Inr sp \<Rightarrow>
                          (Inr (),
                           set_last_summary_ts self now
                             (s\<lparr>notified := notified s @
                                [(summary_title,
                                  join [CHR 0x0A]
                                    [format_plot_count fmt (plot_count lp),
                                     format_balance fmt balance,
                                     format_space fmt sp,
                                     format_peak_height fmt (peak_height ls),
                                     format_full_node_count fmt (full_node_count lc),
                                     format_synced fmt (synced ls),
                                     format_proofs fmt
                                       (sum_list (map proofs
                                          (filter is_FarmingInfoEvent (rows db))))])]\<rparr>))))))
     \<and> (mset events' = mset (rows db) \<longrightarrow>
          (\<exists>r r'. execute_latest db q kind = Inr r
             \<and> execute_latest (db\<lparr>rows := events'\<rparr>) q kind = Inr r'
             \<and> map_option ts r' = map_option ts r
             \<and> (inj_on ts {e \<in> set (rows db). kind e} \<longrightarrow> r' = r)))
     \<and> execute_latest
          \<lparr>rows =
             snd (get_wallet_balance (sample_world\<lparr>wallet_client_get_wallets := None\<rparr>) 30
               (snd (get_wallet_balance
                       (sample_world\<lparr>wallet_client_get_wallet_balance := (\<lambda>_. Some 150)\<rparr>) 20
                  (snd (get_wallet_balance sample_world 10 []))))),
           answers = (\<lambda>_. True)\<rparr>
          LatestWalletBalance is_WalletBalanceEvent
        = Inr (Some (WalletBalanceEvent 20 (PyStr ''150'')))"
proof (intro conjI impI)
  show "\<exists>r. execute_latest db q kind = Inr r
            \<and> (r = None \<longleftrightarrow> \<not> (\<exists>e\<in>set (rows db). kind e))
            \<and> (\<forall>m. r = Some m \<longrightarrow> latest_of kind (rows db) m)"
    using assms select_latest_None [of kind "rows db"] select_latest_Some [of kind "rows db"]
    by (auto simp: execute_latest_def)
next
  assume a: "(\<exists>e\<in>set (rows db). is_HarvesterPlotsEvent e)
          \<and> (\<exists>e\<in>set (rows db). is_BlockchainStateEvent e)
          \<and> (\<exists>e\<in>set (rows db). is_WalletBalanceEvent e)
          \<and> (\<exists>e\<in>set (rows db). is_ConnectionsEvent e)
          \<and> (\<exists>e\<in>set (rows db). is_FarmingInfoEvent e)"
  from a select_latest_exists [of "rows db" is_HarvesterPlotsEvent] obtain lp where
    lp: "select_latest is_HarvesterPlotsEvent (rows db) = Some lp"
        "latest_of is_HarvesterPlotsEvent (rows db) lp" by blast
  from a select_latest_exists [of "rows db" is_BlockchainStateEvent] obtain ls where
    ls: "select_latest is_BlockchainStateEvent (rows db) = Some ls"
        "latest_of is_BlockchainStateEvent (rows db) ls" by blast
  from a select_latest_exists [of "rows db" is_WalletBalanceEvent] obtain lb where
    lb: "select_latest is_WalletBalanceEvent (rows db) = Some lb"
        "latest_of is_WalletBalanceEvent (rows db) lb" by blast
  from a select_latest_exists [of "rows db" is_ConnectionsEvent] obtain lc where
    lc: "select_latest is_ConnectionsEvent (rows db) = Some lc"
        "latest_of is_ConnectionsEvent (rows db) lc" by blast
  from a have pf: "select_sum_proofs (rows db) =
      Some (sum_list (map proofs (filter is_FarmingInfoEvent (rows db))))"
    by (simp add: select_sum_proofs_Some)
  have e: "execute_latest db LatestHarvesterPlots is_HarvesterPlotsEvent = Inr (Some lp)"
    "execute_latest db LatestBlockchainState is_BlockchainStateEvent = Inr (Some ls)"
    "execute_latest db LatestWalletBalance is_WalletBalanceEvent = Inr (Some lb)"
    "execute_latest db LatestConnections is_ConnectionsEvent = Inr (Some lc)"
    "execute_sum_proofs db = Inr (Some (sum_list (map proofs (filter is_FarmingInfoEvent (rows db)))))"
    using assms lp(1) ls(1) lb(1) lc(1) pf
    by (simp_all add: execute_latest_def execute_sum_proofs_def)
  have "trigger fmt self db now s =
      summarize fmt self now (Some lp) (Some ls) (Some lb) (Some lc)
        (Some (sum_list (map proofs (filter is_FarmingInfoEvent (rows db))))) s"
    by (simp add: trigger_def e)
  then have t: "trigger fmt self db now s =
                (case py_int (confirmed lb) of
                   Inl e \<Rightarrow> (Inl e, s)
                 | Inr balance \<Rightarrow>
                     (case py_int (space ls) of
                        Inl e \<Rightarrow> (Inl e, s)
                      | Inr sp \<Rightarrow>
                          (Inr (),
                           set_last_summary_ts self now
                             (s\<lparr>notified := notified s @
                                [(summary_title,
                                  join [CHR 0x0A]
                                    [format_plot_count fmt (plot_count lp),
                                     format_balance fmt balance,
                                     format_space fmt sp,
                                     format_peak_height fmt (peak_height ls),
                                     format_full_node_count fmt (full_node_count lc),
                                     format_synced fmt (synced ls),
                                     format_proofs fmt
                                       (sum_list (map proofs
                                          (filter is_FarmingInfoEvent (rows db))))])]\<rparr>))))"
    by (simp add: summarize_def Let_def split: sum.splits)
  from e(1-4) lp(2) ls(2) lb(2) lc(2) t
  show "\<exists>lp ls lb lc.
            execute_latest db LatestHarvesterPlots is_HarvesterPlotsEvent = Inr (Some lp)
            \<and> latest_of is_HarvesterPlotsEvent (rows db) lp
            \<and> execute_latest db LatestBlockchainState is_BlockchainStateEvent = Inr (Some ls)
            \<and> latest_of is_BlockchainStateEvent (rows db) ls
            \<and> execute_latest db LatestWalletBalance is_WalletBalanceEvent = Inr (Some lb)
            \<and> latest_of is_WalletBalanceEvent (rows db) lb
            \<and> execute_latest db LatestConnections is_ConnectionsEvent = Inr (Some lc)
            \<and> latest_of is_ConnectionsEvent (rows db) lc
            \<and> trigger fmt self db now s =
                (case py_int (confirmed lb) of
                   Inl e \<Rightarrow> (Inl e, s)
                 | Inr balance \<Rightarrow>
                     (case py_int (space ls) of
                        Inl e \<Rightarrow> (Inl e, s)
                      | Inr sp \<Rightarrow>
                          (Inr (),
                           set_last_summary_ts self now
                             (s\<lparr>notified := notified s @
                                [(summary_title,
                                  join [CHR 0x0A]
                                    [format_plot_count fmt (plot_count lp),
                                     format_balance fmt balance,
                                     format_space fmt sp,
                                     format_peak_height fmt (peak_height ls),
                                     format_full_node_count fmt (full_node_count lc),
                                     format_synced fmt (synced ls),
                                     format_proofs fmt
                                       (sum_list (map proofs
                                          (filter is_FarmingInfoEvent (rows db))))])]\<rparr>))))"
    by blast
next
  assume m: "mset events' = mset (rows db)"
  from select_latest_same_rows [OF m, of kind] assms
  show "\<exists>r r'. execute_latest db q kind = Inr r
             \<and> execute_latest (db\<lparr>rows := events'\<rparr>) q kind = Inr r'
             \<and> map_option ts r' = map_option ts r
             \<and> (inj_on ts {e \<in> set (rows db). kind e} \<longrightarrow> r' = r)"
    by (simp add: execute_latest_def)
next
  show "execute_latest
          \<lparr>rows =
             snd (get_wallet_balance (sample_world\<lparr>wallet_client_get_wallets := None\<rparr>) 30
               (snd (get_wallet_balance
                       (sample_world\<lparr>wallet_client_get_wallet_balance := (\<lambda>_. Some 150)\<rparr>) 20
                  (snd (get_wallet_balance sample_world 10 []))))),
           answers = (\<lambda>_. True)\<rparr>
          LatestWalletBalance is_WalletBalanceEvent
        = Inr (Some (WalletBalanceEvent 20 (PyStr ''150'')))"
    by (simp add: execute_latest_def select_latest_def get_wallet_balance_def sample_world_def
        publish_event_def py_str_def str_nat.simps digit_char_def)
qed

theorem latest_by_timestamp_witness:
  "(\<forall>q. answers sample_database q)
   \<and> execute_latest sample_database LatestWalletBalance is_WalletBalanceEvent
       = Inr (Some (WalletBalanceEvent 20 (PyStr ''150'')))
   \<and> latest_of is_WalletBalanceEvent (rows sample_database) (WalletBalanceEvent 20 (PyStr ''150''))
   \<and> mset [WalletBalanceEvent 10 (PyStr ''100''), HarvesterPlotsEvent 10 2 12,
            BlockchainStateEvent 10 (PyStr ''1000'') 3 (PyStr ''42'') True,
            ConnectionsEvent 10 1 0 1, FarmingInfoEvent 11 1,
            WalletBalanceEvent 20 (PyStr ''150'')] = mset (rows sample_database)
   \<and> execute_latest
        (sample_database\<lparr>rows :=
           [WalletBalanceEvent 10 (PyStr ''100''), HarvesterPlotsEvent 10 2 12,
            BlockchainStateEvent 10 (PyStr ''1000'') 3 (PyStr ''42'') True,
            ConnectionsEvent 10 1 0 1, FarmingInfoEvent 11 1,
            WalletBalanceEvent 20 (PyStr ''150'')]\<rparr>)
        LatestWalletBalance is_WalletBalanceEvent
       = Inr (Some (WalletBalanceEvent 20 (PyStr ''150'')))
   \<and> notified (snd (trigger sample_formatters 0 sample_database 30 (class_body 0)))
       = [(summary_title,
           ''2'' @ [CHR 0x0A] @ ''150'' @ [CHR 0x0A] @ ''1000'' @ [CHR 0x0A] @ ''42'' @ [CHR 0x0A]
           @ ''1'' @ [CHR 0x0A] @ ''True'' @ [CHR 0x0A] @ ''1'')]"
proof -
  let ?es = "[WalletBalanceEvent 10 (PyStr ''100''), HarvesterPlotsEvent 10 2 12,
            BlockchainStateEvent 10 (PyStr ''1000'') 3 (PyStr ''42'') True,
            ConnectionsEvent 10 1 0 1, FarmingInfoEvent 11 1,
            WalletBalanceEvent 20 (PyStr ''150'')]"
  have a: "\<forall>q. answers sample_database q" by (simp add: sample_database_def)
  have l: "execute_latest sample_database LatestWalletBalance is_WalletBalanceEvent
       = Inr (Some (WalletBalanceEvent 20 (PyStr ''150'')))"
    by (simp add: execute_latest_def select_latest_def sample_database_def)
  have m: "mset ?es = mset (rows sample_database)" by (simp add: sample_database_def)
  have i: "inj_on ts {e \<in> set (rows sample_database). is_WalletBalanceEvent e}"
    by (auto simp: inj_on_def sample_database_def)
  have n: "notified (class_body 0) = []" by (simp add: class_body_def)
  from latest_by_timestamp [OF a, of LatestWalletBalance is_WalletBalanceEvent
      sample_formatters 0 30 "class_body 0" ?es] l m i a
  show ?thesis by (simp add: sample_trigger n)
qed

text \<open>
  Claim C4. Whenever one of the five lookups of \<open>trigger\<close> has no data in the store
  (no harvester-plots, blockchain-state, wallet-balance or connections event stored, or
  no farming-info event to sum), \<open>trigger\<close> does not call \<^verbatim>\<open>notify\<close>: the list of
  notifications is as before, and so is the whole state of the rule. This holds whether
  or not the store answers the other queries.
\<close>

theorem missing_data_suppressed:
  assumes "select_latest is_HarvesterPlotsEvent (rows db) = None
     \<or> select_latest is_BlockchainStateEvent (rows db) = None
     \<or> select_latest is_WalletBalanceEvent (rows db) = None
     \<or> select_latest is_ConnectionsEvent (rows db) = None
     \<or> select_sum_proofs (rows db) = None"
  shows "notified (snd (trigger fmt self db now s)) = notified s
     \<and> snd (trigger fmt self db now s) = s"
proof -
  obtain r s' where t: "trigger fmt self db now s = (r, s')"
    by (cases "trigger fmt self db now s")
  from trigger_cases [OF t] assms have "s' = s" by auto
  with t show ?thesis by simp
qed

theorem missing_data_suppressed_witness:
  "select_latest is_WalletBalanceEvent
     (rows \<lparr>rows = [HarvesterPlotsEvent 10 2 12, FarmingInfoEvent 11 1], answers = (\<lambda>_. True)\<rparr>) = None
   \<and> notified (snd (trigger sample_formatters 0
        \<lparr>rows = [HarvesterPlotsEvent 10 2 12, FarmingInfoEvent 11 1], answers = (\<lambda>_. True)\<rparr> 20
        (class_body 0))) = []"
proof -
  let ?db = "\<lparr>rows = [HarvesterPlotsEvent 10 2 12, FarmingInfoEvent 11 1], answers = (\<lambda>_. True)\<rparr>"
  have n: "select_latest is_WalletBalanceEvent (rows ?db) = None"
    by (simp add: select_latest_def)
  then have "select_latest is_HarvesterPlotsEvent (rows ?db) = None
     \<or> select_latest is_BlockchainStateEvent (rows ?db) = None
     \<or> select_latest is_WalletBalanceEvent (rows ?db) = None
     \<or> select_latest is_ConnectionsEvent (rows ?db) = None
     \<or> select_sum_proofs (rows ?db) = None" by blast
  from missing_data_suppressed [OF this, of sample_formatters 0 20 "class_body 0"] n
  show ?thesis by (simp add: class_body_def)
qed

text \<open>
  Claim C9, as amended. An instance that has never assigned \<open>last_summary_ts\<close> reads the
  class attribute, which the class body set to its own clock reading \<open>t0\<close> minus the
  interval. Its first \<open>condition\<close> returns true, and stamps the instance, provided the
  clock reading of the call is strictly later than \<open>t0\<close>: the comparison in
  \<open>condition\<close> is strict.
\<close>

theorem first_condition:
  assumes "class_last_summary_ts s = t0 - summary_interval"
    and "instance_last_summary_ts s self = None"
    and "t0 < now1"
  shows "fst (condition self now1 now2 s) = True
     \<and> last_summary_ts (snd (condition self now1 now2 s)) self = now2"
proof -
  from assms(1,2) have "last_summary_ts s self = t0 - summary_interval"
    by (simp add: last_summary_ts_def)
  with assms(3) show ?thesis by (simp add: condition_def)
qed

theorem first_condition_witness:
  "class_last_summary_ts (class_body 0) = 0 - summary_interval
   \<and> instance_last_summary_ts (class_body 0) 7 = None
   \<and> fst (condition 7 1 2 (class_body 0)) = True
   \<and> last_summary_ts (snd (condition 7 1 2 (class_body 0))) 7 = 2"
proof -
  have c: "class_last_summary_ts (class_body 0) = 0 - summary_interval"
    and i: "instance_last_summary_ts (class_body 0) 7 = None"
    by (simp_all add: class_body_def)
  from first_condition [OF c i, of 1 2] c i show ?thesis by simp
qed

text \<open>
  The claim as stated assumes a clock that does not run backwards only. When the first
  call reads the same instant as the class body did, the time elapsed is the interval
  itself and \<open>condition\<close> returns false.
\<close>

theorem first_condition_counterexample:
  "instance_last_summary_ts (class_body 0) 7 = None
   \<and> fst (condition 7 0 0 (class_body 0)) = False"
  by (simp add: condition_def class_body_def last_summary_ts_def)

text \<open>
  Claim C10. A call of \<open>condition\<close> or \<open>trigger\<close> on the instance \<open>a\<close> leaves the
  timestamp that another instance \<open>b\<close> reads as it was, and with it the verdict of the
  next \<open>condition\<close> of \<open>b\<close>: the stamp goes to the attribute dictionary of \<open>a\<close>, never
  to the class attribute that instances without a stamp of their own read.
\<close>

theorem instances_do_not_share:
  assumes "a \<noteq> b"
  shows "last_summary_ts (snd (condition a now1 now2 s)) b = last_summary_ts s b
     \<and> last_summary_ts (snd (trigger fmt a db now s)) b = last_summary_ts s b
     \<and> fst (condition b now1' now2' (snd (condition a now1 now2 s))) = fst (condition b now1' now2' s)
     \<and> fst (condition b now1' now2' (snd (trigger fmt a db now s))) = fst (condition b now1' now2' s)"
proof -
  have c: "last_summary_ts (snd (condition a now1 now2 s)) b = last_summary_ts s b"
    using assms by (simp add: condition_def)
  obtain r s' where t: "trigger fmt a db now s = (r, s')"
    by (cases "trigger fmt a db now s")
  from trigger_cases [OF t] assms have "last_summary_ts s' b = last_summary_ts s b"
    by auto
  with t have tr: "last_summary_ts (snd (trigger fmt a db now s)) b = last_summary_ts s b"
    by simp
  have "\<And>s1 s2. last_summary_ts s1 b = last_summary_ts s2 b \<Longrightarrow>
      fst (condition b now1' now2' s1) = fst (condition b now1' now2' s2)"
    by (simp add: condition_def)
  with c tr show ?thesis by blast
qed

theorem instances_do_not_share_witness:
  "(0::nat) \<noteq> 1
   \<and> fst (condition 0 5 5 (class_body 0)) = True
   \<and> last_summary_ts (snd (condition 0 5 5 (class_body 0))) 0 = 5
   \<and> last_summary_ts (snd (condition 0 5 5 (class_body 0))) 1 = 0 - summary_interval
   \<and> fst (condition 1 6 6 (snd (condition 0 5 5 (class_body 0)))) = True"
proof -
  have n: "(0::nat) \<noteq> 1" by simp
  have c: "fst (condition 0 5 5 (class_body 0)) = True"
    "last_summary_ts (snd (condition 0 5 5 (class_body 0))) 0 = 5"
    "last_summary_ts (class_body 0) 1 = 0 - summary_interval"
    "fst (condition 1 6 6 (class_body 0)) = True"
    by (simp_all add: condition_def class_body_def last_summary_ts_def set_last_summary_ts_def
        summary_interval_def)
  from instances_do_not_share [OF n, of 5 5 "class_body 0" sample_formatters
      "\<lparr>rows = [], answers = (\<lambda>_. True)\<rparr>" 5 6 6] c n
  show ?thesis by simp
qed

text \<open>
  Claim C6, as amended. On a tick on which a query of \<open>trigger\<close> is not answered by the
  store, \<open>trigger\<close> raises the store's error to its caller, without a call of
  \<^verbatim>\<open>notify\<close> and without changing the state. Such a tick is one whose \<open>condition\<close>
  returned true, and \<open>condition\<close> has stamped the instance before \<open>trigger\<close> ran: after
  the tick \<open>last_summary_ts\<close> is the stamp of that tick.
\<close>

theorem store_failure_tick:
  assumes "\<not> answers (store k) q"
    and "summary_interval < now_check k - last_summary_ts s self"
  shows "run_tick fmt self k s = (Inl StoreUnavailable, set_last_summary_ts self (now_stamp k) s)
     \<and> notified (snd (run_tick fmt self k s)) = notified s
     \<and> last_summary_ts (snd (run_tick fmt self k s)) self = now_stamp k
     \<and> trigger fmt self (store k) now s' = (Inl StoreUnavailable, s')"
  using assms(2) trigger_store_failure [OF assms(1)]
  by (simp add: run_tick_def condition_def)

theorem store_failure_tick_witness:
  "\<not> answers (store (sample_tick 5 \<lparr>rows = [], answers = (\<lambda>_. False)\<rparr>)) SumProofs
   \<and> summary_interval < now_check (sample_tick 5 \<lparr>rows = [], answers = (\<lambda>_. False)\<rparr>)
        - last_summary_ts (class_body 0) 0
   \<and> fst (run_tick sample_formatters 0 (sample_tick 5 \<lparr>rows = [], answers = (\<lambda>_. False)\<rparr>)
        (class_body 0)) = Inl StoreUnavailable
   \<and> last_summary_ts
        (snd (run_tick sample_formatters 0 (sample_tick 5 \<lparr>rows = [], answers = (\<lambda>_. False)\<rparr>)
           (class_body 0))) 0 = 5"
proof -
  let ?k = "sample_tick 5 \<lparr>rows = [], answers = (\<lambda>_. False)\<rparr>"
  have a: "\<not> answers (store ?k) SumProofs" by (simp add: sample_tick_def)
  have c: "summary_interval < now_check ?k - last_summary_ts (class_body 0) 0"
    by (simp add: sample_tick_def class_body_def last_summary_ts_def summary_interval_def)
  have n: "now_stamp ?k = 5" by (simp add: sample_tick_def)
  from store_failure_tick [OF a c, of sample_formatters 0 "class_body 0"] a c n
  show ?thesis by simp
qed

text \<open>
  The claim as stated has the timestamp unchanged by such a tick and the rule not
  crashing. On a fresh instance and a store that answers no query, the tick at instant 5
  ends in the store's error and moves the timestamp from one hour before the class body
  to 5.
\<close>

theorem store_failure_counterexample:
  "\<not> answers \<lparr>rows = [], answers = (\<lambda>_. False)\<rparr> LatestHarvesterPlots
   \<and> fst (run_tick sample_formatters 0 (sample_tick 5 \<lparr>rows = [], answers = (\<lambda>_. False)\<rparr>)
          (class_body 0)) = Inl StoreUnavailable
   \<and> last_summary_ts (class_body 0) 0 = - 3600000000
   \<and> last_summary_ts
        (snd (run_tick sample_formatters 0 (sample_tick 5 \<lparr>rows = [], answers = (\<lambda>_. False)\<rparr>)
           (class_body 0))) 0 = 5"
  by (simp add: run_tick_def condition_def sample_tick_def class_body_def last_summary_ts_def
      set_last_summary_ts_def summary_interval_def trigger_def execute_latest_def)

text \<open>
  Claim C2. \<open>condition\<close> returns true exactly when the time elapsed since
  \<open>last_summary_ts\<close> exceeds the interval; it then stamps the instance with the clock
  reading of that moment, and otherwise changes nothing. Over any run of ticks of one
  instance on a clock that does not run backwards, whatever the content and the
  availability of the store, a tick in which \<^verbatim>\<open>notify\<close> is called starts more than an
  interval after the end of every earlier tick in which it was called: no window of the
  length of the interval holds two calls.
\<close>

theorem condition_debounce:
  assumes "chronological ks"
  shows "(fst (condition self now1 now2 s) \<longleftrightarrow> summary_interval < now1 - last_summary_ts s self)
     \<and> (fst (condition self now1 now2 s) \<longrightarrow>
          snd (condition self now1 now2 s) = set_last_summary_ts self now2 s
          \<and> last_summary_ts (snd (condition self now1 now2 s)) self = now2)
     \<and> (\<not> fst (condition self now1 now2 s) \<longrightarrow> snd (condition self now1 now2 s) = s)
     \<and> sorted_wrt (\<lambda>a b. summary_interval < now_check b - now_fired a)
          (notifying_ticks fmt self ks s)"
  using notifying_ticks_spaced [OF assms, of fmt self s]
  by (simp add: condition_def)

theorem condition_debounce_witness:
  "chronological [sample_tick 1 sample_database, sample_tick 2 sample_database,
      sample_tick 3600000002 sample_database]
   \<and> notifying_ticks sample_formatters 0
        [sample_tick 1 sample_database, sample_tick 2 sample_database,
         sample_tick 3600000002 sample_database] (class_body 0)
      = [sample_tick 1 sample_database, sample_tick 3600000002 sample_database]
   \<and> sorted_wrt (\<lambda>a b. summary_interval < now_check b - now_fired a)
        (notifying_ticks sample_formatters 0
           [sample_tick 1 sample_database, sample_tick 2 sample_database,
            sample_tick 3600000002 sample_database] (class_body 0))"
proof -
  let ?ks = "[sample_tick 1 sample_database, sample_tick 2 sample_database,
      sample_tick 3600000002 sample_database]"
  have c: "chronological ?ks" by (simp add: sample_tick_def)
  have n: "notifying_ticks sample_formatters 0 ?ks (class_body 0)
      = [sample_tick 1 sample_database, sample_tick 3600000002 sample_database]"
    by (simp add: run_tick_def condition_def sample_tick_def class_body_def last_summary_ts_def
      set_last_summary_ts_def summary_interval_def sample_trigger Let_def)
  from condition_debounce [OF c, of 0 1 1 "class_body 0" sample_formatters] c n
  show ?thesis by simp
qed


section \<open>Facts about the collector\<close>

lemma digit_val_digit_char: "d < 10 \<Longrightarrow> digit_val (digit_char d) = Some d"
proof -
  assume "d < 10"
  then have "d \<in> {0, 1, 2, 3, 4, 5, 6, 7, 8, 9}" by auto
  then show ?thesis by (auto simp: digit_val_def digit_char_def)
qed

lemma digit_char_not_sign:
  "d < 10 \<Longrightarrow> digit_char d \<noteq> CHR ''-'' \<and> digit_char d \<noteq> CHR ''+''"
proof -
  assume "d < 10"
  then have "d \<in> {0, 1, 2, 3, 4, 5, 6, 7, 8, 9}" by auto
  then show ?thesis by (auto simp: digit_char_def)
qed

lemma int_digits_append:
  "int_digits (xs @ ys) acc =
     (case int_digits xs acc of None \<Rightarrow> None | Some a \<Rightarrow> int_digits ys a)"
  by (induction xs arbitrary: acc) (auto split: option.splits)

lemma int_digits_str_nat: "int_digits (str_nat n) 0 = Some n"
proof (induction n rule: str_nat.induct)
  case (1 n)
  show ?case
  proof (cases "n < 10")
    case True
    then show ?thesis
      by (subst str_nat.simps) (simp add: digit_val_digit_char)
  next
    case False
    with 1 have "int_digits (str_nat (n div 10)) 0 = Some (n div 10)" by simp
    with False show ?thesis
      by (subst str_nat.simps) (simp add: int_digits_append digit_val_digit_char)
  qed
qed

lemma str_nat_starts_with_digit: "\<exists>d cs. d < 10 \<and> str_nat n = digit_char d # cs"
proof (induction n rule: str_nat.induct)
  case (1 n)
  show ?case
  proof (cases "n < 10")
    case True
    then show ?thesis by (subst str_nat.simps) auto
  next
    case False
    with 1 obtain d cs where "d < 10" "str_nat (n div 10) = digit_char d # cs" by auto
    with False show ?thesis by (subst str_nat.simps) auto
  qed
qed

lemma int_of_str_py_str: "int_of_str (py_str i) = Inr i"
proof (cases "i < 0")
  case True
  obtain d cs where "d < 10" "str_nat (nat (- i)) = digit_char d # cs"
    using str_nat_starts_with_digit by blast
  moreover have "int_digits (str_nat (nat (- i))) 0 = Some (nat (- i))"
    by (rule int_digits_str_nat)
  ultimately show ?thesis using True
    by (simp add: int_of_str_def py_str_def)
next
  case False
  obtain d cs where dc: "d < 10" "str_nat (nat i) = digit_char d # cs"
    using str_nat_starts_with_digit by blast
  moreover have "int_digits (str_nat (nat i)) 0 = Some (nat i)"
    by (rule int_digits_str_nat)
  ultimately show ?thesis using False digit_char_not_sign [of d]
    by (simp add: int_of_str_def py_str_def)
qed

lemma py_int_py_str: "py_int (PyStr (py_str i)) = Inr i"
  by (simp add: py_int_def int_of_str_py_str)

lemma confirmed_balances_all:
  "map (wallet_client_get_wallet_balance w) wallets = map Some balances \<Longrightarrow>
     confirmed_balances w wallets = Some balances"
  by (induction wallets arbitrary: balances) auto

lemma get_wallet_balance_queue:
  "get_wallet_balance w now q =
     (fst (get_wallet_balance w now []), q @ snd (get_wallet_balance w now []))"
  by (simp add: get_wallet_balance_def publish_event_def split: option.splits)

lemma get_harvester_plots_queue:
  "get_harvester_plots w now q =
     (fst (get_harvester_plots w now []), q @ snd (get_harvester_plots w now []))"
  by (simp add: get_harvester_plots_def publish_event_def split: option.splits sum.splits)

lemma get_blockchain_state_queue:
  "get_blockchain_state w now q =
     (fst (get_blockchain_state w now []), q @ snd (get_blockchain_state w now []))"
  by (simp add: get_blockchain_state_def publish_event_def split: option.splits)

lemma get_connections_queue:
  "get_connections w now q =
     (fst (get_connections w now []), q @ snd (get_connections w now []))"
  by (simp add: get_connections_def publish_event_def split: option.splits)

lemma fetch_result_queue:
  "fst (get_wallet_balance w now q) = fst (get_wallet_balance w now [])"
  "fst (get_harvester_plots w now q) = fst (get_harvester_plots w now [])"
  "fst (get_blockchain_state w now q) = fst (get_blockchain_state w now [])"
  "fst (get_connections w now q) = fst (get_connections w now [])"
  by (subst get_wallet_balance_queue, simp) (subst get_harvester_plots_queue, simp,
      subst get_blockchain_state_queue, simp, subst get_connections_queue, simp)

lemma until_first_exception_succeeds:
  "\<forall>c\<in>set cs. \<exists>r. \<forall>q. fst (c q) = r \<Longrightarrow>
     fst (until_first_exception cs q) = Inr () \<longleftrightarrow> (\<forall>c\<in>set cs. fst (c []) = Inr ())"
proof (induction cs arbitrary: q)
  case Nil
  show ?case by simp
next
  case (Cons c cs)
  from Cons.prems have cs: "\<forall>c\<in>set cs. \<exists>r. \<forall>q. fst (c q) = r" by simp
  from Cons.prems obtain r where r: "\<And>q. fst (c q) = r" by auto
  obtain q1 where cq: "c q = (r, q1)" using r [of q] by (cases "c q") auto
  show ?case
  proof (cases r)
    case (Inl e)
    with cq r [of "[]"] show ?thesis by simp
  next
    case (Inr u)
    with cq have "until_first_exception (c # cs) q = until_first_exception cs q1" by simp
    with Cons.IH [OF cs, of q1] r [of "[]"] Inr show ?thesis by simp
  qed
qed

lemma until_first_exception_queue:
  "\<forall>c\<in>set cs. \<exists>r. \<forall>q. fst (c q) = r \<Longrightarrow>
     fst (until_first_exception cs q) = fst (until_first_exception cs q')"
proof (induction cs arbitrary: q q')
  case Nil
  show ?case by simp
next
  case (Cons c cs)
  from Cons.prems have cs: "\<forall>c\<in>set cs. \<exists>r. \<forall>q. fst (c q) = r" by simp
  from Cons.prems obtain r where r: "\<And>q. fst (c q) = r" by auto
  obtain q1 where cq: "c q = (r, q1)" using r [of q] by (cases "c q") auto
  obtain q1' where cq': "c q' = (r, q1')" using r [of q'] by (cases "c q'") auto
  show ?case
  proof (cases r)
    case (Inl e)
    with cq cq' show ?thesis by simp
  next
    case (Inr u)
    with cq cq' have "until_first_exception (c # cs) q = until_first_exception cs q1"
      "until_first_exception (c # cs) q' = until_first_exception cs q1'" by simp_all
    with Cons.IH [OF cs, of q1 q1'] show ?thesis by simp
  qed
qed

lemma gather_result:
  assumes "\<forall>a\<in>set aws. \<exists>r. \<forall>q. fst (snd a q) = r"
  shows "fst (gather aws q) = fst (gather aws [])"
    and "fst (gather aws q) = Inr () \<longleftrightarrow> (\<forall>a\<in>set aws. fst (snd a []) = Inr ())"
proof -
  have a: "\<forall>c\<in>set (map snd (sort_key fst aws)). \<exists>r. \<forall>q. fst (c q) = r"
    using assms by auto
  show "fst (gather aws q) = fst (gather aws [])"
    unfolding gather_def by (rule until_first_exception_queue [OF a])
  have "fst (gather aws q) = Inr () \<longleftrightarrow>
      (\<forall>c\<in>set (map snd (sort_key fst aws)). fst (c []) = Inr ())"
    unfolding gather_def by (rule until_first_exception_succeeds [OF a])
  also have "\<dots> \<longleftrightarrow> (\<forall>a\<in>set aws. fst (snd a []) = Inr ())" by simp
  finally show "fst (gather aws q) = Inr () \<longleftrightarrow> (\<forall>a\<in>set aws. fst (snd a []) = Inr ())" .
qed

lemma fetch_result_fixed:
  "\<exists>r. \<forall>q. fst (get_wallet_balance w now q) = r"
  "\<exists>r. \<forall>q. fst (get_harvester_plots w now q) = r"
  "\<exists>r. \<forall>q. fst (get_blockchain_state w now q) = r"
  "\<exists>r. \<forall>q. fst (get_connections w now q) = r"
  by (intro exI allI, rule fetch_result_queue)+

lemma fetches_result_queue:
  "\<forall>a\<in>set [(now_wallet_balance c, get_wallet_balance (world c) (now_wallet_balance c)),
             (now_harvester_plots c, get_harvester_plots (world c) (now_harvester_plots c)),
             (now_blockchain_state c, get_blockchain_state (world c) (now_blockchain_state c)),
             (now_connections c, get_connections (world c) (now_connections c))].
     \<exists>r. \<forall>q. fst (snd a q) = r"
  by (simp add: fetch_result_fixed)

lemma poll_result_queue: "fst (poll c q) = fst (poll c [])"
  unfolding poll_def by (rule gather_result(1) [OF fetches_result_queue])

lemma poll_succeeds:
  "fst (poll c q) = Inr () \<longleftrightarrow>
      fst (get_wallet_balance (world c) (now_wallet_balance c) []) = Inr ()
      \<and> fst (get_harvester_plots (world c) (now_harvester_plots c) []) = Inr ()
      \<and> fst (get_blockchain_state (world c) (now_blockchain_state c) []) = Inr ()
      \<and> fst (get_connections (world c) (now_connections c) []) = Inr ()"
  unfolding poll_def by (subst gather_result(2) [OF fetches_result_queue]) simp

lemma sample_fetches:
  "get_wallet_balance sample_world now q = (Inr (), q @ [WalletBalanceEvent now (PyStr ''100'')])"
  "get_harvester_plots sample_world now q = (Inr (), q @ [HarvesterPlotsEvent now 2 12])"
  "get_blockchain_state sample_world now q =
     (Inr (), q @ [BlockchainStateEvent now (PyStr ''1000'') 3 (PyStr ''42'') True])"
  "get_connections sample_world now q = (Inr (), q @ [ConnectionsEvent now 1 0 1])"
  by (simp_all add: get_wallet_balance_def get_harvester_plots_def get_blockchain_state_def
      get_connections_def get_harvesters_def get_all_plots_def get_plots_def sample_world_def
      publish_event_def py_str_def str_nat.simps digit_char_def)

lemma sample_fetches_update:
  "get_harvester_plots (sample_world\<lparr>wallet_client_get_wallets := x\<rparr>) now q =
     get_harvester_plots sample_world now q"
  "get_blockchain_state (sample_world\<lparr>wallet_client_get_wallets := x\<rparr>) now q =
     get_blockchain_state sample_world now q"
  "get_connections (sample_world\<lparr>wallet_client_get_wallets := x\<rparr>) now q =
     get_connections sample_world now q"
  "get_wallet_balance (sample_world\<lparr>full_node_client_get_connections := y\<rparr>) now q =
     get_wallet_balance sample_world now q"
  "get_harvester_plots (sample_world\<lparr>full_node_client_get_connections := y\<rparr>) now q =
     get_harvester_plots sample_world now q"
  "get_blockchain_state (sample_world\<lparr>full_node_client_get_connections := y\<rparr>) now q =
     get_blockchain_state sample_world now q"
  "get_wallet_balance (sample_world\<lparr>harvester_client_get_plots := z\<rparr>) now q =
     get_wallet_balance sample_world now q"
  "get_blockchain_state (sample_world\<lparr>harvester_client_get_plots := z\<rparr>) now q =
     get_blockchain_state sample_world now q"
  "get_connections (sample_world\<lparr>harvester_client_get_plots := z\<rparr>) now q =
     get_connections sample_world now q"
  by (simp_all add: get_wallet_balance_def get_harvester_plots_def get_blockchain_state_def
      get_connections_def get_harvesters_def get_all_plots_def get_plots_def sample_world_def)

lemma sample_poll:
  "poll (sample_cycle sample_world t) q =
     (Inr (), q @ [WalletBalanceEvent t (PyStr ''100''), HarvesterPlotsEvent t 2 12,
        BlockchainStateEvent t (PyStr ''1000'') 3 (PyStr ''42'') True, ConnectionsEvent t 1 0 1])"
  by (simp add: poll_def gather_def sample_cycle_def sample_fetches)

lemma task_result:
  "fst (task cs q) = Inr () \<longleftrightarrow> (\<forall>c\<in>set cs. fst (poll c []) = Inr ())"
proof (induction cs arbitrary: q)
  case Nil
  then show ?case by simp
next
  case (Cons c cs)
  have p: "fst (poll c q) = fst (poll c [])"
    by (rule poll_result_queue)
  show ?case
  proof (cases "poll c q")
    case (Pair r q1)
    with p have r: "fst (poll c []) = r" by simp
    show ?thesis
    proof (cases r)
      case (Inl e)
      with Pair r show ?thesis by simp
    next
      case (Inr u)
      with Pair r Cons.IH [of q1] show ?thesis by simp
    qed
  qed
qed

lemma get_all_plots_loop_Some:
  "\<forall>h\<in>set hosts. harvester_client_create w h \<Longrightarrow>
     get_all_plots_loop w (Some a) hosts =
       Inr (Some (a\<lparr>plots := plots a @ concat (map (plots_of w) (filter (succeeds w) hosts))\<rparr>))"
proof (induction hosts arbitrary: a)
  case Nil
  then show ?case by simp
next
  case (Cons h hosts)
  then have c: "harvester_client_create w h" and rest: "\<forall>h\<in>set hosts. harvester_client_create w h"
    by auto
  show ?case
  proof (cases "harvester_client_get_plots w h")
    case None
    with c Cons.IH [OF rest, of a] show ?thesis
      by (simp add: get_plots_def succeeds_def)
  next
    case (Some p)
    show ?thesis
    proof (cases "success p")
      case True
      with c Some Cons.IH [OF rest, of "a\<lparr>plots := plots a @ plots p\<rparr>"] show ?thesis
        by (simp add: get_plots_def succeeds_def plots_of_def)
    next
      case False
      with c Some Cons.IH [OF rest, of a] show ?thesis
        by (simp add: get_plots_def succeeds_def)
    qed
  qed
qed

lemma get_all_plots_loop_None:
  "\<forall>h\<in>set hosts. harvester_client_create w h \<Longrightarrow>
     (if \<exists>h\<in>set hosts. succeeds w h
      then \<exists>p. get_all_plots_loop w None hosts = Inr (Some p)
             \<and> plots p = concat (map (plots_of w) (filter (succeeds w) hosts))
      else get_all_plots_loop w None hosts = Inr None)"
proof (induction hosts)
  case Nil
  then show ?case by simp
next
  case (Cons h hosts)
  then have c: "harvester_client_create w h" and rest: "\<forall>h\<in>set hosts. harvester_client_create w h"
    by auto
  show ?case
  proof (cases "succeeds w h")
    case True
    then obtain p where p: "harvester_client_get_plots w h = Some p" "success p"
      by (auto simp: succeeds_def split: option.splits)
    with c get_all_plots_loop_Some [OF rest, of p] True show ?thesis
      by (simp add: get_plots_def plots_of_def)
  next
    case False
    then have "get_all_plots_loop w None (h # hosts) = get_all_plots_loop w None hosts"
      using c by (auto simp: get_plots_def succeeds_def split: option.splits)
    with False Cons.IH [OF rest] show ?thesis by simp
  qed
qed

lemma get_all_plots_loop_no_success:
  "\<forall>h\<in>set hosts. \<not> succeeds w h \<Longrightarrow>
     get_all_plots_loop w None hosts = Inr None \<or> (\<exists>e. get_all_plots_loop w None hosts = Inl e)"
proof (induction hosts)
  case Nil
  then show ?case by simp
next
  case (Cons h hosts)
  then have n: "\<not> succeeds w h" by simp
  have "get_all_plots_loop w None (h # hosts) = get_all_plots_loop w None hosts
      \<or> (\<exists>e. get_all_plots_loop w None (h # hosts) = Inl e)"
  proof (cases "harvester_client_create w h")
    case False
    then show ?thesis by (simp add: get_plots_def)
  next
    case True
    show ?thesis
    proof (cases "harvester_client_get_plots w h")
      case None
      with True show ?thesis by (simp add: get_plots_def)
    next
      case (Some p)
      with n have "\<not> success p" by (simp add: succeeds_def)
      with True Some show ?thesis by (simp add: get_plots_def)
    qed
  qed
  with Cons show ?case by auto
qed

lemma sum_file_size_concat:
  "sum_list (map file_size (concat pss)) = sum_list (map (\<lambda>ps. sum_list (map file_size ps)) pss)"
  by (induction pss) auto

lemma length_concat_int:
  "int (length (concat pss)) = sum_list (map (\<lambda>ps. int (length ps)) pss)"
  by (induction pss) auto


section \<open>The claims about the collector\<close>

text \<open>
  Claim C8, as amended. When the wallet service returns its list of wallets and a balance
  for each of them, none negative, \<open>get_wallet_balance\<close> succeeds and appends exactly one
  event to the queue: a \<open>WalletBalanceEvent\<close> whose \<open>confirmed\<close> field is the decimal
  string of the sum of the balances, as \<^verbatim>\<open>str(sum(...))\<close> gives it; the sum is not
  negative.
\<close>

theorem wallet_balance_event:
  assumes "wallet_client_get_wallets w = Some wallets"
    and "map (wallet_client_get_wallet_balance w) wallets = map Some balances"
    and "\<forall>b\<in>set balances. 0 \<le> b"
  shows "get_wallet_balance w now event_queue =
       (Inr (), event_queue @ [WalletBalanceEvent now (PyStr (py_str (sum_list balances)))])
     \<and> 0 \<le> sum_list balances"
proof -
  from assms(3) have "0 \<le> sum_list balances" by (simp add: sum_list_nonneg)
  with assms(1) confirmed_balances_all [OF assms(2)] show ?thesis
    by (simp add: get_wallet_balance_def publish_event_def)
qed

theorem wallet_balance_event_witness:
  "wallet_client_get_wallets (sample_world\<lparr>wallet_client_get_wallets := Some [1, 2]\<rparr>) = Some [1, 2]
   \<and> get_wallet_balance (sample_world\<lparr>wallet_client_get_wallets := Some [1, 2]\<rparr>) 10 []
       = (Inr (), [WalletBalanceEvent 10 (PyStr ''200'')])"
proof -
  let ?w = "sample_world\<lparr>wallet_client_get_wallets := Some [1, 2]\<rparr>"
  have a: "wallet_client_get_wallets ?w = Some [1, 2]" by simp
  have b: "map (wallet_client_get_wallet_balance ?w) [1, 2] = map Some [100, 100]"
    by (simp add: sample_world_def)
  have c: "\<forall>b\<in>set [100, 100 :: int]. 0 \<le> b" by simp
  have s: "py_str (sum_list [100, 100]) = ''200''"
    by (simp add: py_str_def str_nat.simps digit_char_def)
  from wallet_balance_event [OF a b c, of 10 "[]"] a s show ?thesis by simp
qed

text \<open>
  The claim as stated has the \<open>confirmed\<close> field hold the integer. With two wallets of
  balance 100 each, the one event published holds the string of three characters
  \<open>200\<close>, which is not the integer 200.
\<close>

theorem wallet_balance_event_counterexample:
  "get_wallet_balance (sample_world\<lparr>wallet_client_get_wallets := Some [1, 2]\<rparr>) 10 []
     = (Inr (), [WalletBalanceEvent 10 (PyStr ''200'')])
   \<and> map confirmed
        (snd (get_wallet_balance (sample_world\<lparr>wallet_client_get_wallets := Some [1, 2]\<rparr>) 10 []))
     \<noteq> [PyInt 200]"
  by (simp add: get_wallet_balance_def sample_world_def publish_event_def py_str_def
      str_nat.simps digit_char_def)

text \<open>
  Claim C5, as amended. A cycle ends without an exception exactly when all four fetches
  succeed. When a fetch of a cycle fails, the exception leaves \<open>task\<close> and ends the loop
  in that cycle: the outcome is that of the cycle, whatever cycles would have followed.
  After a cycle in which all four fetches succeed the loop goes on to the next cycle; so
  the loop is still running after a run of cycles exactly when no fetch failed in any of
  them.
\<close>

theorem failure_ends_task:
  "(fst (poll c event_queue) = Inr () \<longleftrightarrow>
      fst (get_wallet_balance (world c) (now_wallet_balance c) []) = Inr ()
      \<and> fst (get_harvester_plots (world c) (now_harvester_plots c) []) = Inr ()
      \<and> fst (get_blockchain_state (world c) (now_blockchain_state c) []) = Inr ()
      \<and> fst (get_connections (world c) (now_connections c) []) = Inr ())
   \<and> (fst (poll c event_queue) \<noteq> Inr () \<longrightarrow> task (c # cs) event_queue = poll c event_queue)
   \<and> (fst (poll c event_queue) = Inr () \<longrightarrow>
        task (c # cs) event_queue = task cs (snd (poll c event_queue)))
   \<and> (fst (task cs event_queue) = Inr () \<longleftrightarrow> (\<forall>c\<in>set cs. fst (poll c []) = Inr ()))"
proof (intro conjI impI)
  show "fst (poll c event_queue) = Inr () \<longleftrightarrow>
      fst (get_wallet_balance (world c) (now_wallet_balance c) []) = Inr ()
      \<and> fst (get_harvester_plots (world c) (now_harvester_plots c) []) = Inr ()
      \<and> fst (get_blockchain_state (world c) (now_blockchain_state c) []) = Inr ()
      \<and> fst (get_connections (world c) (now_connections c) []) = Inr ()"
    by (rule poll_succeeds)
next
  assume "fst (poll c event_queue) \<noteq> Inr ()"
  then show "task (c # cs) event_queue = poll c event_queue"
    by (cases "poll c event_queue") (auto split: sum.splits)
next
  assume "fst (poll c event_queue) = Inr ()"
  then show "task (c # cs) event_queue = task cs (snd (poll c event_queue))"
    by (cases "poll c event_queue") (auto split: sum.splits)
next
  show "fst (task cs event_queue) = Inr () \<longleftrightarrow> (\<forall>c\<in>set cs. fst (poll c []) = Inr ())"
    by (rule task_result)
qed

theorem failure_ends_task_witness:
  "fst (poll \<lparr>world = sample_world\<lparr>wallet_client_get_wallets := None\<rparr>,
              now_wallet_balance = 12, now_harvester_plots = 10, now_blockchain_state = 11,
              now_connections = 10\<rparr> []) \<noteq> Inr ()
   \<and> task [\<lparr>world = sample_world\<lparr>wallet_client_get_wallets := None\<rparr>,
             now_wallet_balance = 12, now_harvester_plots = 10, now_blockchain_state = 11,
             now_connections = 10\<rparr>,
           sample_cycle sample_world 20] []
     = (Inl (ConnectionError ''Failed to get wallet balance via RPC. Is your wallet running?''),
        [HarvesterPlotsEvent 10 2 12, ConnectionsEvent 10 1 0 1,
         BlockchainStateEvent 11 (PyStr ''1000'') 3 (PyStr ''42'') True])"
proof -
  let ?c = "\<lparr>world = sample_world\<lparr>wallet_client_get_wallets := None\<rparr>,
              now_wallet_balance = 12, now_harvester_plots = 10, now_blockchain_state = 11,
              now_connections = 10\<rparr>"
  have p: "poll ?c [] =
     (Inl (ConnectionError ''Failed to get wallet balance via RPC. Is your wallet running?''),
        [HarvesterPlotsEvent 10 2 12, ConnectionsEvent 10 1 0 1,
         BlockchainStateEvent 11 (PyStr ''1000'') 3 (PyStr ''42'') True])"
    by (simp add: poll_def gather_def sample_fetches_update sample_fetches
        get_wallet_balance_def)
  then have n: "fst (poll ?c []) \<noteq> Inr ()" by simp
  from failure_ends_task [of ?c "[]" "[sample_cycle sample_world 20]"] n p
  show ?thesis by simp
qed

text \<open>
  The claim as stated has the loop proceed to the next cycle after a connection failure.
  With the full node's connection list failing in the cycle at instant 10, \<open>task\<close> ends
  with that failure and the cycle at instant 20 is never polled; without the failure both
  cycles publish.
\<close>

theorem connection_failure_counterexample:
  "fst (get_connections (sample_world\<lparr>full_node_client_get_connections := None\<rparr>) 10 [])
     = Inl RpcFailure
   \<and> task [sample_cycle (sample_world\<lparr>full_node_client_get_connections := None\<rparr>) 10,
           sample_cycle sample_world 20] []
     = (Inl RpcFailure,
        [WalletBalanceEvent 10 (PyStr ''100''), HarvesterPlotsEvent 10 2 12,
         BlockchainStateEvent 10 (PyStr ''1000'') 3 (PyStr ''42'') True])
   \<and> task [sample_cycle sample_world 10, sample_cycle sample_world 20] []
     = (Inr (),
        [WalletBalanceEvent 10 (PyStr ''100''), HarvesterPlotsEvent 10 2 12,
         BlockchainStateEvent 10 (PyStr ''1000'') 3 (PyStr ''42'') True, ConnectionsEvent 10 1 0 1,
         WalletBalanceEvent 20 (PyStr ''100''), HarvesterPlotsEvent 20 2 12,
         BlockchainStateEvent 20 (PyStr ''1000'') 3 (PyStr ''42'') True, ConnectionsEvent 20 1 0 1])"
proof -
  have "poll (sample_cycle (sample_world\<lparr>full_node_client_get_connections := None\<rparr>) 10) []
    = (Inl RpcFailure,
        [WalletBalanceEvent 10 (PyStr ''100''), HarvesterPlotsEvent 10 2 12,
         BlockchainStateEvent 10 (PyStr ''1000'') 3 (PyStr ''42'') True])"
    by (simp add: poll_def gather_def sample_cycle_def sample_fetches_update sample_fetches
        get_connections_def)
  then show ?thesis
    by (simp add: sample_poll get_connections_def)
qed

text \<open>
  Claim C3, as amended. Let \<open>hosts\<close> be the harvesters that \<open>get_harvesters\<close> found.
  When the client of every host can be built and at least one host succeeds,
  \<open>get_harvester_plots\<close> appends exactly one \<open>HarvesterPlotsEvent\<close>, whose
  \<open>plot_count\<close> is the sum of the numbers of plots of the hosts that succeed and whose
  \<open>plot_size\<close> is the sum of their file sizes; the hosts that fail are left out. When
  no host succeeds, no event is published and the fetch ends in an error.
\<close>

theorem harvester_aggregation:
  assumes "get_harvesters w = Inr hosts"
  shows "((\<forall>h\<in>set hosts. harvester_client_create w h) \<and> (\<exists>h\<in>set hosts. succeeds w h) \<longrightarrow>
       get_harvester_plots w now event_queue =
         (Inr (),
          event_queue @
            [HarvesterPlotsEvent now
               (sum_list (map (\<lambda>h. int (length (plots_of w h))) (filter (succeeds w) hosts)))
               (sum_list (map (\<lambda>h. sum_list (map file_size (plots_of w h)))
                  (filter (succeeds w) hosts)))]))
     \<and> ((\<forall>h\<in>set hosts. \<not> succeeds w h) \<longrightarrow>
          (\<exists>e. get_harvester_plots w now event_queue = (Inl e, event_queue)))"
proof (intro conjI impI)
  assume a: "(\<forall>h\<in>set hosts. harvester_client_create w h) \<and> (\<exists>h\<in>set hosts. succeeds w h)"
  then have c: "\<forall>h\<in>set hosts. harvester_client_create w h" and s: "\<exists>h\<in>set hosts. succeeds w h"
    by auto
  from get_all_plots_loop_None [OF c] s obtain p where
    p: "get_all_plots_loop w None hosts = Inr (Some p)"
       "plots p = concat (map (plots_of w) (filter (succeeds w) hosts))"
    by auto
  with assms show "get_harvester_plots w now event_queue =
         (Inr (),
          event_queue @
            [HarvesterPlotsEvent now
               (sum_list (map (\<lambda>h. int (length (plots_of w h))) (filter (succeeds w) hosts)))
               (sum_list (map (\<lambda>h. sum_list (map file_size (plots_of w h)))
                  (filter (succeeds w) hosts)))])"
    by (simp add: get_harvester_plots_def get_all_plots_def publish_event_def
        sum_file_size_concat length_concat_int comp_def)
next
  assume "\<forall>h\<in>set hosts. \<not> succeeds w h"
  from get_all_plots_loop_no_success [OF this] assms
  show "\<exists>e. get_harvester_plots w now event_queue = (Inl e, event_queue)"
    by (auto simp: get_harvester_plots_def get_all_plots_def)
qed

theorem harvester_aggregation_witness:
  "get_harvesters sample_world = Inr [''h1'', ''h2'']
   \<and> succeeds sample_world ''h1'' \<and> \<not> succeeds sample_world ''h2''
   \<and> get_harvester_plots sample_world 10 [] = (Inr (), [HarvesterPlotsEvent 10 2 12])
   \<and> get_harvesters (sample_world\<lparr>harvester_client_get_plots := (\<lambda>_. None)\<rparr>) = Inr [''h1'', ''h2'']
   \<and> (\<exists>e. get_harvester_plots (sample_world\<lparr>harvester_client_get_plots := (\<lambda>_. None)\<rparr>) 10 []
          = (Inl e, []))"
proof -
  let ?w = "sample_world\<lparr>harvester_client_get_plots := (\<lambda>_. None)\<rparr>"
  have h: "get_harvesters sample_world = Inr [''h1'', ''h2'']"
    and h': "get_harvesters ?w = Inr [''h1'', ''h2'']"
    by (simp_all add: get_harvesters_def sample_world_def)
  have c: "\<forall>h\<in>set [''h1'', ''h2'']. harvester_client_create sample_world h"
    by (simp add: sample_world_def)
  have s: "succeeds sample_world ''h1''" "\<not> succeeds sample_world ''h2''"
    "plots_of sample_world ''h1'' = [\<lparr>filename = ''a'', file_size = 7\<rparr>,
        \<lparr>filename = ''b'', file_size = 5\<rparr>]"
    by (simp_all add: succeeds_def plots_of_def sample_world_def)
  have n: "\<forall>h\<in>set [''h1'', ''h2'']. \<not> succeeds ?w h"
    by (simp add: succeeds_def)
  from harvester_aggregation [OF h, of 10 "[]"] harvester_aggregation [OF h', of 10 "[]"]
    h h' c s n
  show ?thesis by simp
qed

text \<open>
  The claim as stated has a total failure not fatal to the collector. With two harvesters
  of which none answers, \<open>get_all_plots\<close> returns \<^verbatim>\<open>None\<close>, the subscript on it
  raises \<^verbatim>\<open>TypeError\<close> outside the \<^verbatim>\<open>try\<close>, and \<open>task\<close> ends in the cycle at
  instant 10, in which the wallet balance had been published: the cycle at instant 20 is
  never polled.
\<close>

theorem total_failure_counterexample:
  "get_harvesters (sample_world\<lparr>harvester_client_get_plots := (\<lambda>_. None)\<rparr>) = Inr [''h1'', ''h2'']
   \<and> get_harvester_plots (sample_world\<lparr>harvester_client_get_plots := (\<lambda>_. None)\<rparr>) 10 []
     = (Inl TypeError, [])
   \<and> task [sample_cycle (sample_world\<lparr>harvester_client_get_plots := (\<lambda>_. None)\<rparr>) 10,
           sample_cycle sample_world 20] []
     = (Inl TypeError, [WalletBalanceEvent 10 (PyStr ''100'')])"
proof -
  let ?w = "sample_world\<lparr>harvester_client_get_plots := (\<lambda>_. None)\<rparr>"
  have h: "get_harvesters ?w = Inr [''h1'', ''h2'']"
    by (simp add: get_harvesters_def sample_world_def)
  have g: "\<And>q. get_harvester_plots ?w 10 q = (Inl TypeError, q)"
    by (simp add: get_harvester_plots_def h get_all_plots_def get_plots_def)
       (simp add: sample_world_def)
  have "poll (sample_cycle ?w 10) [] = (Inl TypeError, [WalletBalanceEvent 10 (PyStr ''100'')])"
    by (simp add: poll_def gather_def sample_cycle_def sample_fetches_update sample_fetches g)
  with h g show ?thesis by simp
qed

end
